theory Spec2Isabelle
  imports Main "HOL-Library.Word"
begin

unbundle bit_operations_syntax

section \<open>Memory\<close>

text \<open>
  The hooking engine of \<^verbatim>\<open>nmd_memory.h\<close> works on raw process memory through
  \<^verbatim>\<open>uint8_t*\<close> pointers. The embedding is that of the \<^verbatim>\<open>_WIN64\<close> build: an address is a
  64-bit word, memory is a function from addresses to bytes, multi-byte accesses are
  little-endian, and pointer arithmetic wraps around as \<^verbatim>\<open>uintptr_t\<close> does.
\<close>

type_synonym addr = "64 word"
type_synonym byte = "8 word"
type_synonym memory = "addr \<Rightarrow> byte"

definition read16 :: "memory \<Rightarrow> addr \<Rightarrow> 16 word" where
  "read16 m a = ucast (m a) OR push_bit 8 (ucast (m (a + 1)))"

definition read32 :: "memory \<Rightarrow> addr \<Rightarrow> 32 word" where
  "read32 m a = ucast (m a) OR push_bit 8 (ucast (m (a + 1)))
     OR push_bit 16 (ucast (m (a + 2))) OR push_bit 24 (ucast (m (a + 3)))"

definition read64 :: "memory \<Rightarrow> addr \<Rightarrow> 64 word" where
  "read64 m a = ucast (read32 m a) OR push_bit 32 (ucast (read32 m (a + 4)))"

definition write8 :: "memory \<Rightarrow> addr \<Rightarrow> byte \<Rightarrow> memory" where
  "write8 m a v = m(a := v)"

definition write16 :: "memory \<Rightarrow> addr \<Rightarrow> 16 word \<Rightarrow> memory" where
  "write16 m a v = (m(a := ucast v))(a + 1 := ucast (drop_bit 8 v))"

definition write32 :: "memory \<Rightarrow> addr \<Rightarrow> 32 word \<Rightarrow> memory" where
  "write32 m a v = (((m(a := ucast v))(a + 1 := ucast (drop_bit 8 v)))
     (a + 2 := ucast (drop_bit 16 v)))(a + 3 := ucast (drop_bit 24 v))"

definition write64 :: "memory \<Rightarrow> addr \<Rightarrow> 64 word \<Rightarrow> memory" where
  "write64 m a v = write32 (write32 m a (ucast v)) (a + 4) (ucast (drop_bit 32 v))"

section \<open>Instruction length decoder\<close>

text \<open>The macros \<^verbatim>\<open>_NMD_MEM_R\<close> and \<^verbatim>\<open>_NMD_MEM_C\<close>: the high and the low nibble of \<^verbatim>\<open>*b\<close>.\<close>

definition NMD_MEM_R :: "byte \<Rightarrow> byte" where
  "NMD_MEM_R x = drop_bit 4 x"

definition NMD_MEM_C :: "byte \<Rightarrow> byte" where
  "NMD_MEM_C x = x AND 0xF"

text \<open>\<^verbatim>\<open>_nmd_mem_find_byte\<close>: linear search of a byte table.\<close>

fun nmd_mem_find_byte :: "byte list \<Rightarrow> byte \<Rightarrow> bool" where
  "nmd_mem_find_byte [] x = False"
| "nmd_mem_find_byte (y # ys) x = (if y = x then True else nmd_mem_find_byte ys x)"

definition prefixes :: "byte list" where
  "prefixes = [0xF0, 0xF2, 0xF3, 0x2E, 0x36, 0x3E, 0x26, 0x64, 0x65, 0x66, 0x67]"

definition op1modrm :: "byte list" where
  "op1modrm = [0x62, 0x63, 0x69, 0x6B, 0xC0, 0xC1, 0xC4, 0xC5, 0xC6, 0xC7, 0xD0, 0xD1,
     0xD2, 0xD3, 0xF6, 0xF7, 0xFE, 0xFF]"

definition op1imm8 :: "byte list" where
  "op1imm8 = [0x6A, 0x6B, 0x80, 0x82, 0x83, 0xA8, 0xC0, 0xC1, 0xC6, 0xCD, 0xD4, 0xD5, 0xEB]"

definition op1imm32 :: "byte list" where
  "op1imm32 = [0x68, 0x69, 0x81, 0xA9, 0xC7, 0xE8, 0xE9]"

definition op2modrm :: "byte list" where
  "op2modrm = [0x0D, 0xA3, 0xA4, 0xA5, 0xAB, 0xAC, 0xAD, 0xAE, 0xAF]"

text \<open>
  \<^verbatim>\<open>_nmd_mem_parse_modrm\<close>. The pointer \<^verbatim>\<open>*b\<close> is passed in and the advanced pointer is
  returned. \<^verbatim>\<open>modrm\<close> is the byte after the opcode; once a SIB byte has been seen,
  \<^verbatim>\<open>**b\<close> is the SIB byte.
\<close>

definition nmd_mem_parse_modrm :: "memory \<Rightarrow> addr \<Rightarrow> bool \<Rightarrow> addr" where
  "nmd_mem_parse_modrm m b0 addressPrefix =
    (let b = b0 + 1;
         modrm = m b
     in if \<not> addressPrefix \<or> (addressPrefix \<and> m b \<ge> 0x40) then
          (let hasSIB = (m b < 0xC0 \<and> m b AND 7 = 4 \<and> \<not> addressPrefix);
               b = (if hasSIB then b + 1 else b)
           in if modrm \<ge> 0x40 \<and> modrm \<le> 0x7F then b + 1
              else if (modrm \<le> 0x3F \<and> modrm AND 7 = 5) \<or> (modrm \<ge> 0x80 \<and> modrm \<le> 0xBF)
                then b + (if addressPrefix then 2 else 4)
              else if hasSIB \<and> m b AND 7 = 5
                then b + (if modrm AND 0x40 \<noteq> 0 then 1 else 4)
              else b)
        else if addressPrefix \<and> modrm = 0x26 then b + 2
        else b)"

text \<open>
  The prefix loop of \<^verbatim>\<open>_nmd_mem_ldisasm\<close>. In C, \<^verbatim>\<open>&&\<close> binds tighter than \<^verbatim>\<open>||\<close>, so the loop
  condition is \<^verbatim>\<open>(i < 14 && find(prefixes, *b)) || (x86_64_mode ? R == 4 : false)\<close>.
  The loop has no bound of its own in the second disjunct, so it is a partial function:
  \<open>None\<close> is a scan that never stops. The flags are
  \<open>(operandPrefix, addressPrefix, rexW)\<close>.
\<close>

partial_function (option) parse_prefixes ::
  "memory \<Rightarrow> bool \<Rightarrow> addr \<Rightarrow> nat \<Rightarrow> bool \<times> bool \<times> bool \<Rightarrow> (addr \<times> bool \<times> bool \<times> bool) option"
where
  "parse_prefixes m x86_64_mode b i flags =
    (if (i < 14 \<and> nmd_mem_find_byte prefixes (m b))
        \<or> (if x86_64_mode then NMD_MEM_R (m b) = 4 else False)
     then parse_prefixes m x86_64_mode (b + 1) (i + 1)
            (case flags of (operandPrefix, addressPrefix, rexW) \<Rightarrow>
               if m b = 0x66 then (True, addressPrefix, rexW)
               else if m b = 0x67 then (operandPrefix, True, rexW)
               else if NMD_MEM_R (m b) = 4 \<and> NMD_MEM_C (m b) \<ge> 8
                 then (operandPrefix, addressPrefix, True)
               else flags)
     else Some (b, flags))"

text \<open>
  The opcode part of \<^verbatim>\<open>_nmd_mem_ldisasm\<close>, entered with \<^verbatim>\<open>b\<close> at the first byte that is
  not a prefix. In the two-byte branch the source tests \<^verbatim>\<open>*b\<close> again without advancing
  \<^verbatim>\<open>b\<close>, so every test there is made on the escape byte itself; the branch is kept as
  written. The result is \<^verbatim>\<open>(++b + offset) - address\<close>.
\<close>

definition ldisasm_opcode :: "memory \<Rightarrow> addr \<Rightarrow> addr \<Rightarrow> bool \<times> bool \<times> bool \<Rightarrow> 64 word" where
  "ldisasm_opcode m address b flags =
    (case flags of (operandPrefix, addressPrefix, rexW) \<Rightarrow>
      let x = m b; R = NMD_MEM_R x; C = NMD_MEM_C x in
      if x = 0x0F then
        (let offset = (if R = 8 then 4
               else if (R = 7 \<and> C < 4) \<or> x = 0xA4 \<or> x = 0xC2 \<or> (x > 0xC3 \<and> x \<le> 0xC6)
                       \<or> x = 0xBA \<or> x = 0xAC then 1
               else 0);
             b' = (if nmd_mem_find_byte op2modrm x \<or> (R \<noteq> 3 \<and> R > 0 \<and> R < 7) \<or> x \<ge> 0xD0
                      \<or> (R = 7 \<and> C \<noteq> 7) \<or> R = 9 \<or> R = 0xB \<or> (R = 0xC \<and> C < 8)
                      \<or> (R = 0 \<and> C < 4)
                   then nmd_mem_parse_modrm m b addressPrefix else b)
         in (b' + 1 + offset) - address)
      else
        (let offset =
              (if (R = 0xE \<and> C < 8) \<or> (R = 0xB \<and> C < 8) \<or> R = 7
                   \<or> (R < 4 \<and> (C = 4 \<or> C = 0xC))
                   \<or> (x = 0xF6 \<and> m (b + 1) AND 48 = 0)
                   \<or> nmd_mem_find_byte op1imm8 x then 1
               else if x = 0xC2 \<or> x = 0xCA then 2
               else if x = 0xC8 then 3
               else if (R < 4 \<and> (C = 5 \<or> C = 0xD)) \<or> (R = 0xB \<and> C \<ge> 8)
                   \<or> (x = 0xF7 \<and> m (b + 1) AND 48 = 0)
                   \<or> nmd_mem_find_byte op1imm32 x
                 then (if rexW then 8 else if operandPrefix then 2 else 4)
               else if R = 0xA \<and> C < 4
                 then (if rexW then 8 else if addressPrefix then 2 else 4)
               else if x = 0xEA \<or> x = 0x9A then (if operandPrefix then 4 else 6)
               else 0);
             b' = (if nmd_mem_find_byte op1modrm x
                      \<or> (R < 4 \<and> (C < 4 \<or> (C \<ge> 8 \<and> C < 0xC))) \<or> R = 8
                      \<or> (R = 0xD \<and> C \<ge> 8)
                   then nmd_mem_parse_modrm m b addressPrefix else b)
         in (b' + 1 + offset) - address))"

text \<open>\<^verbatim>\<open>_nmd_mem_ldisasm\<close>: the prefix loop, then the opcode.\<close>

definition nmd_mem_ldisasm :: "memory \<Rightarrow> addr \<Rightarrow> bool \<Rightarrow> 64 word option" where
  "nmd_mem_ldisasm m address x86_64_mode =
    (case parse_prefixes m x86_64_mode address 0 (False, False, False) of
       None \<Rightarrow> None
     | Some (b, flags) \<Rightarrow> Some (ldisasm_opcode m address b flags))"


text \<open>
  The length loop at the head of \<^verbatim>\<open>nmd_hook\<close> (\<^verbatim>\<open>_WIN64\<close> branch):
  \<^verbatim>\<open>while (num_copy_bytes < 5) num_copy_bytes += _nmd_mem_ldisasm(target + num_copy_bytes, true)\<close>.
\<close>

partial_function (option) count_copy_bytes :: "memory \<Rightarrow> addr \<Rightarrow> 64 word \<Rightarrow> 64 word option" where
  "count_copy_bytes m target num_copy_bytes =
    (if num_copy_bytes < 5 then
       (case nmd_mem_ldisasm m (target + num_copy_bytes) True of
          None \<Rightarrow> None
        | Some k \<Rightarrow> count_copy_bytes m target (num_copy_bytes + k))
     else Some num_copy_bytes)"

section \<open>Process state and the operating system\<close>

text \<open>
  The state the engine works on: memory, the global \<^verbatim>\<open>_nmd_first_hook_page\<close> (0 is the
  null pointer), the protection of the page an address lies in, the number of system
  calls made so far, and the log of \<^verbatim>\<open>FlushInstructionCache\<close> calls.

  The system calls are external. They are taken by their contracts: allocation either
  fails or grants a zero-filled page with \<^verbatim>\<open>PAGE_EXECUTE_READWRITE\<close> whose base it writes
  back through \<^verbatim>\<open>BaseAddress\<close>; a protection change either fails or sets the protection of
  every page the range touches and reports the previous protection of the first one.
  Whether a call succeeds, and which base an allocation grants, is up to the system:
  the record \<open>os\<close> fixes its answers, indexed by the number of calls made before.
  A failed allocation leaves \<^verbatim>\<open>BaseAddress\<close> as it was. The region size a protection
  change writes back through \<^verbatim>\<open>NumberOfBytesToProtect\<close> is left out: \<^verbatim>\<open>nmd_hook\<close> uses
  that variable afterwards only as the size of the restoring call. Stores are not
  checked against the protection.
\<close>

record world =
  mem :: memory
  first_hook_page :: addr
  protection :: "addr \<Rightarrow> 32 word"
  os_clock :: nat
  flushes :: "(addr \<times> 64 word) list"

record os =
  vm_allocate :: "nat \<Rightarrow> addr \<Rightarrow> addr option"
  vm_protect_ok :: "nat \<Rightarrow> bool"

definition PAGE_EXECUTE_READWRITE :: "32 word" where
  "PAGE_EXECUTE_READWRITE = 0x40"

definition in_pages :: "addr \<Rightarrow> 64 word \<Rightarrow> addr \<Rightarrow> bool" where
  "in_pages base len a =
    (drop_bit 12 base \<le> drop_bit 12 a \<and> drop_bit 12 a \<le> drop_bit 12 (base + len - 1))"

definition NtAllocateVirtualMemory :: "os \<Rightarrow> world \<Rightarrow> addr \<Rightarrow> addr option \<times> world" where
  "NtAllocateVirtualMemory sys w base =
    (case vm_allocate sys (os_clock w) base of
       None \<Rightarrow> (None, w\<lparr>os_clock := os_clock w + 1\<rparr>)
     | Some p \<Rightarrow> (Some p,
         w\<lparr>mem := (\<lambda>a. if a - p < 0x1000 then 0 else mem w a),
           protection := (\<lambda>a. if a - p < 0x1000 then PAGE_EXECUTE_READWRITE else protection w a),
           os_clock := os_clock w + 1\<rparr>))"

definition NtProtectVirtualMemory ::
  "os \<Rightarrow> world \<Rightarrow> addr \<Rightarrow> 64 word \<Rightarrow> 32 word \<Rightarrow> 32 word option \<times> world" where
  "NtProtectVirtualMemory sys w base len new =
    (if vm_protect_ok sys (os_clock w)
     then (Some (protection w base),
           w\<lparr>protection := (\<lambda>a. if in_pages base len a then new else protection w a),
             os_clock := os_clock w + 1\<rparr>)
     else (None, w\<lparr>os_clock := os_clock w + 1\<rparr>))"

definition FlushInstructionCache :: "world \<Rightarrow> addr \<Rightarrow> 64 word \<Rightarrow> world" where
  "FlushInstructionCache w a n = w\<lparr>flushes := flushes w @ [(a, n)]\<rparr>"

section \<open>Hook region allocator\<close>

text \<open>
  \<^verbatim>\<open>_nmd_alloc_page_near\<close>, \<^verbatim>\<open>_WIN64\<close> branch: probe upwards from \<^verbatim>\<open>addr + 0x1000\<close> in steps
  of a page until the system grants one. The result 0 is the null pointer.
\<close>

function alloc_page_probe :: "os \<Rightarrow> world \<Rightarrow> addr \<Rightarrow> addr \<Rightarrow> addr \<times> world" where
  "alloc_page_probe sys w target_addr addr =
    (case NtAllocateVirtualMemory sys w target_addr of
       (Some p, w') \<Rightarrow> (p, w')
     | (None, w') \<Rightarrow>
         if target_addr \<ge> 0x8000000000000000 \<or> target_addr \<ge> addr + 0x80000000 - 0x1000
         then (0, w')
         else alloc_page_probe sys w' (target_addr + 0x1000) addr)"
  by pat_completeness auto

termination alloc_page_probe
  apply (relation "measure (\<lambda>(sys, w, t, a). 2 ^ 64 - unat t)")
   apply simp
  apply (clarsimp simp: not_le)
  apply (simp add: unat_word_ariths word_less_nat_alt)
  done

declare alloc_page_probe.simps [simp del]

definition nmd_alloc_page_near :: "os \<Rightarrow> world \<Rightarrow> addr \<Rightarrow> addr \<times> world" where
  "nmd_alloc_page_near sys w addr = alloc_page_probe sys w (addr + 0x1000) addr"

text \<open>
  A hook page starts with its \<^verbatim>\<open>next\<close> pointer (8 bytes); the records follow. A record
  is the header \<^verbatim>\<open>_nmd_hook_data\<close>, \<^verbatim>\<open>{uint16_t type; uint16_t size}\<close>, and
  \<^verbatim>\<open>size\<close> bytes of payload.
\<close>

definition NMD_HOOK_DATA_TYPE_NONE :: "16 word" where
  "NMD_HOOK_DATA_TYPE_NONE = 0"

definition NMD_HOOK_DATA_TYPE_TRAMPOLINE :: "16 word" where
  "NMD_HOOK_DATA_TYPE_TRAMPOLINE = 1"

definition NMD_HOOK_DATA_TYPE_ABSOLUTE_JUMP :: "16 word" where
  "NMD_HOOK_DATA_TYPE_ABSOLUTE_JUMP = 2"

definition hd_type :: "memory \<Rightarrow> addr \<Rightarrow> 16 word" where
  "hd_type m hook_data = read16 m hook_data"

definition hd_size :: "memory \<Rightarrow> addr \<Rightarrow> 16 word" where
  "hd_size m hook_data = read16 m (hook_data + 2)"

definition set_hd_type :: "memory \<Rightarrow> addr \<Rightarrow> 16 word \<Rightarrow> memory" where
  "set_hd_type m hook_data v = write16 m hook_data v"

definition set_hd_size :: "memory \<Rightarrow> addr \<Rightarrow> 16 word \<Rightarrow> memory" where
  "set_hd_size m hook_data v = write16 m (hook_data + 2) v"

text \<open>
  \<^verbatim>\<open>_nmd_find_free_hook_data\<close>: the scan from the first record of a page. The argument
  of the loop is the current \<^verbatim>\<open>hook_data\<close>; the result 0 is the null pointer.
\<close>

partial_function (option) find_free_loop :: "memory \<Rightarrow> addr \<Rightarrow> 64 word \<Rightarrow> addr option" where
  "find_free_loop m hook_data sz =
    (if hd_type m hook_data \<noteq> NMD_HOOK_DATA_TYPE_NONE \<or> sz > ucast (hd_size m hook_data)
     then (if hook_data AND 0xfff = 0 then Some 0
           else find_free_loop m (hook_data + 4 + ucast (hd_size m hook_data)) sz)
     else Some hook_data)"

definition nmd_find_free_hook_data :: "memory \<Rightarrow> addr \<Rightarrow> 64 word \<Rightarrow> addr option" where
  "nmd_find_free_hook_data m hook_page sz = find_free_loop m (hook_page + 8) sz"

text \<open>
  What a run of the engine ends in, when it ends: a result, or the access violation of
  a store through the null pointer.
\<close>

datatype 'a outcome = AccessViolation | Done 'a

text \<open>
  Lines 854 to 861 of \<^verbatim>\<open>_nmd_alloc_hook_data_near\<close>: the first record of a new page and the
  size of the record behind it. \<^verbatim>\<open>sizeof(_nmd_hook_page*)\<close> is 8 and
  \<^verbatim>\<open>sizeof(_nmd_hook_data)\<close> is 4.
\<close>

definition init_hook_page :: "memory \<Rightarrow> addr \<Rightarrow> 8 word \<Rightarrow> 64 word \<Rightarrow> addr \<times> memory" where
  "init_hook_page m page type sz =
    (let hook_data = page + 8;
         m1 = set_hd_size m hook_data (ucast sz);
         m2 = set_hd_type m1 hook_data (ucast type);
         next_hook_data = hook_data + 4 + sz;
         m3 = set_hd_size m2 next_hook_data (ucast (0x1000 - (8 + 4 + sz)))
     in (hook_data + 4, m3))"

text \<open>The reach test of line 869.\<close>

definition page_in_range :: "addr \<Rightarrow> addr \<Rightarrow> bool" where
  "page_in_range hook_page target =
    (hook_page < target + 0x80000000
     \<and> hook_page > (if target \<le> 0x80000000 - 0x1000 then 0x1000
                     else target - 0x80000000 + 0x1000))"

text \<open>Lines 874 to 887: carve the request off the front of the free record found.\<close>

definition take_hook_data :: "memory \<Rightarrow> addr \<Rightarrow> 8 word \<Rightarrow> 64 word \<Rightarrow> addr \<times> memory" where
  "take_hook_data m hook_data type sz =
    (let remaining_bytes = (ucast ((0x1000 - ((hook_data + 4 + sz) AND 0xfff)) mod 0x1000) :: 32 word);
         (sz', m1) =
            (if (ucast remaining_bytes :: 64 word) < 10 + 4
             then (sz + ucast remaining_bytes, m)
             else (sz, set_hd_size m (hook_data + 4 + sz) (ucast (remaining_bytes - 4))));
         m2 = set_hd_size m1 hook_data (ucast sz');
         m3 = set_hd_type m2 hook_data (ucast type)
     in (hook_data + 4, m3))"

text \<open>
  The walk over the page list, lines 865 to 908. When the last page is reached, the
  source stores the result of \<^verbatim>\<open>_nmd_alloc_page_near\<close> in \<^verbatim>\<open>hook_page->next\<close> and returns
  0 if that result is not null; if it is null, lines 896 to 903 store the record
  header through \<^verbatim>\<open>(uint8_t*)0 + 8\<close>.
\<close>

partial_function (option) alloc_walk ::
  "os \<Rightarrow> world \<Rightarrow> addr \<Rightarrow> addr \<Rightarrow> 8 word \<Rightarrow> 64 word \<Rightarrow> (addr \<times> world) outcome option"
where
  "alloc_walk sys w hook_page target type sz =
    (case (if page_in_range hook_page target
           then nmd_find_free_hook_data (mem w) hook_page sz else Some 0) of
       None \<Rightarrow> None
     | Some hook_data \<Rightarrow>
         if hook_data \<noteq> 0 then
           (case take_hook_data (mem w) hook_data type sz of
              (p, m') \<Rightarrow> Some (Done (p, w\<lparr>mem := m'\<rparr>)))
         else if read64 (mem w) hook_page = 0 then
           (case nmd_alloc_page_near sys w target of
              (page, w') \<Rightarrow>
                if page \<noteq> 0
                then Some (Done (0, w'\<lparr>mem := write64 (mem w') hook_page page\<rparr>))
                else Some AccessViolation)
         else alloc_walk sys w (read64 (mem w) hook_page) target type sz)"

definition nmd_alloc_hook_data_near ::
  "os \<Rightarrow> world \<Rightarrow> addr \<Rightarrow> 8 word \<Rightarrow> 64 word \<Rightarrow> (addr \<times> world) outcome option" where
  "nmd_alloc_hook_data_near sys w target type sz =
    (if first_hook_page w = 0 then
       (case nmd_alloc_page_near sys w target of
          (page, w') \<Rightarrow>
            if page = 0 then Some (Done (0, w'\<lparr>first_hook_page := 0\<rparr>))
            else (case init_hook_page (mem w') page type sz of
                    (p, m') \<Rightarrow> Some (Done (p, w'\<lparr>mem := m', first_hook_page := page\<rparr>))))
     else alloc_walk sys w (first_hook_page w) target type sz)"

definition nmd_alloc_trampoline ::
  "os \<Rightarrow> world \<Rightarrow> addr \<Rightarrow> 64 word \<Rightarrow> (addr \<times> world) outcome option" where
  "nmd_alloc_trampoline sys w target num_original_bytes =
    nmd_alloc_hook_data_near sys w target 1 (num_original_bytes + 5)"

definition nmd_alloc_absolute_jump :: "os \<Rightarrow> world \<Rightarrow> addr \<Rightarrow> (addr \<times> world) outcome option" where
  "nmd_alloc_absolute_jump sys w target = nmd_alloc_hook_data_near sys w target 2 12"

section \<open>Hook engine\<close>

text \<open>
  The byte loops \<^verbatim>\<open>for (; i < n; i++) dst[i] = src[i]\<close> of \<^verbatim>\<open>nmd_hook\<close> and
  \<^verbatim>\<open>_nmd_unhook_page\<close>, one byte at a time on the memory as it is.
\<close>

function copy_loop :: "memory \<Rightarrow> addr \<Rightarrow> addr \<Rightarrow> 64 word \<Rightarrow> 64 word \<Rightarrow> memory" where
  "copy_loop m dst src i n =
    (if i < n then copy_loop (m(dst + i := m (src + i))) dst src (i + 1) n else m)"
  by pat_completeness auto

termination copy_loop
  apply (relation "measure (\<lambda>(m, dst, src, i, n). unat n - unat i)")
   apply simp
  apply (simp add: word_less_nat_alt)
  apply unat_arith
  done

declare copy_loop.simps [simp del]

text \<open>
  The end of a successful \<^verbatim>\<open>nmd_hook\<close>, lines 997 to 1002: restore the protection (the
  status of the call is not looked at), flush, return true.
\<close>

definition hook_finish ::
  "os \<Rightarrow> world \<Rightarrow> addr \<Rightarrow> 64 word \<Rightarrow> 32 word \<Rightarrow> addr option \<Rightarrow> bool \<times> addr option \<times> world" where
  "hook_finish sys w target num_copy_bytes old_protection out =
    (case NtProtectVirtualMemory sys w target num_copy_bytes old_protection of
       (r, w') \<Rightarrow> (True, out, FlushInstructionCache w' target 5))"

text \<open>
  Lines 946 to 961: the trampoline's bytes. A target that starts with \<^verbatim>\<open>0xE9\<close> has its
  jump re-emitted relative to the trampoline; any other target is copied.
\<close>

definition write_trampoline :: "memory \<Rightarrow> addr \<Rightarrow> addr \<Rightarrow> 64 word \<Rightarrow> memory" where
  "write_trampoline m target trampoline num_copy_bytes =
    (let m1 =
          (if m target = 0xE9 then
             write32 (write8 m trampoline 0xE9) (trampoline + 1)
               (ucast ((scast (read32 m (target + 1)) + (target + 5)) - (trampoline + 5)))
           else copy_loop m trampoline target 0 num_copy_bytes)
     in write32 (write8 m1 (trampoline + num_copy_bytes) 0xE9) (trampoline + num_copy_bytes + 1)
          (ucast ((target + num_copy_bytes) - (trampoline + num_copy_bytes + 5))))"

text \<open>Lines 981 to 983: the stub \<^verbatim>\<open>mov rax, detour; jmp rax\<close>.\<close>

definition write_absolute_jump :: "memory \<Rightarrow> addr \<Rightarrow> addr \<Rightarrow> memory" where
  "write_absolute_jump m absolute_jump detour =
    write16 (write64 (write16 m absolute_jump 0xB848) (absolute_jump + 2) detour)
      (absolute_jump + 10) 0xE0FF"

text \<open>The five bytes of a near jump, \<^verbatim>\<open>0xE9\<close> and a 32-bit displacement.\<close>

definition write_near_jump :: "memory \<Rightarrow> addr \<Rightarrow> 32 word \<Rightarrow> memory" where
  "write_near_jump m a disp = write32 (write8 m a 0xE9) (a + 1) disp"

text \<open>
  The test of line 974: the displacement does not fit a signed 32-bit value.
\<close>

definition too_far :: "64 word \<Rightarrow> bool" where
  "too_far delta = (sint delta < - 0x80000000 \<or> sint delta > 0x7fffffff)"

text \<open>
  \<^verbatim>\<open>nmd_hook\<close>, \<^verbatim>\<open>_WIN64\<close> build. The result is the returned flag, the value stored through
  \<^verbatim>\<open>original\<close> if a store was made, and the state. The variable \<^verbatim>\<open>original\<close> points to is
  the caller's own and is kept apart from the memory the engine patches; \<^verbatim>\<open>original = 0\<close>
  is the null pointer.
\<close>

definition nmd_hook ::
  "os \<Rightarrow> world \<Rightarrow> addr \<Rightarrow> addr \<Rightarrow> addr \<Rightarrow> (bool \<times> addr option \<times> world) outcome option" where
  "nmd_hook sys w target detour original =
    (let delta = detour - (target + 5) in
     case count_copy_bytes (mem w) target 0 of
       None \<Rightarrow> None
     | Some num_copy_bytes \<Rightarrow>
     (case nmd_alloc_trampoline sys w target num_copy_bytes of
        None \<Rightarrow> None
      | Some AccessViolation \<Rightarrow> Some AccessViolation
      | Some (Done (trampoline, w1)) \<Rightarrow>
        if trampoline = 0 then Some (Done (False, None, w1))
        else
          let w2 = w1\<lparr>mem := write_trampoline (mem w1) target trampoline num_copy_bytes\<rparr>;
              out = (if original \<noteq> 0 then Some trampoline else None)
          in case NtProtectVirtualMemory sys w2 target num_copy_bytes PAGE_EXECUTE_READWRITE of
               (None, w3) \<Rightarrow> Some (Done (False, out, w3))
             | (Some old_protection, w3) \<Rightarrow>
                 if too_far delta then
                   (case nmd_alloc_absolute_jump sys w3 target of
                      None \<Rightarrow> None
                    | Some AccessViolation \<Rightarrow> Some AccessViolation
                    | Some (Done (absolute_jump, w4)) \<Rightarrow>
                        if absolute_jump = 0 then Some (Done (False, out, w4))
                        else
                          let m5 = write_absolute_jump (mem w4) absolute_jump detour;
                              m6 = write_near_jump m5 target (ucast (absolute_jump - (target + 5)))
                          in Some (Done (hook_finish sys (w4\<lparr>mem := m6\<rparr>) target
                                           num_copy_bytes old_protection out)))
                 else
                   Some (Done (hook_finish sys
                                 (w3\<lparr>mem := write_near_jump (mem w3) target (ucast delta)\<rparr>)
                                 target num_copy_bytes old_protection out))))"

text \<open>
  The body of \<^verbatim>\<open>_nmd_unhook_page\<close> once the record is found, lines 1018 to 1043. The
  result \<open>None\<close> is the early \<^verbatim>\<open>return false\<close> of a refused protection change.
\<close>

definition free_hook_data :: "memory \<Rightarrow> addr \<Rightarrow> memory" where
  "free_hook_data m hook_data =
    (let m1 = set_hd_type m hook_data NMD_HOOK_DATA_TYPE_NONE;
         next_hook_data = hook_data + 4 + ucast (hd_size m1 hook_data)
     in if next_hook_data AND 0xfff \<noteq> 0 \<and> hd_type m1 next_hook_data = NMD_HOOK_DATA_TYPE_NONE
        then set_hd_size m1 hook_data (hd_size m1 hook_data + (4 + hd_size m1 next_hook_data))
        else m1)"

definition restore_target :: "os \<Rightarrow> world \<Rightarrow> addr \<Rightarrow> addr \<Rightarrow> 64 word \<Rightarrow> bool \<times> world" where
  "restore_target sys w target hook_data num_copy_bytes =
    (case NtProtectVirtualMemory sys w target num_copy_bytes PAGE_EXECUTE_READWRITE of
       (None, w1) \<Rightarrow> (False, w1)
     | (Some old_protection, w1) \<Rightarrow>
         let m2 = copy_loop (mem w1) target (hook_data + 4) 0 num_copy_bytes;
             (r, w3) = NtProtectVirtualMemory sys (w1\<lparr>mem := m2\<rparr>) target num_copy_bytes old_protection
         in (True, w3\<lparr>mem := free_hook_data (mem w3) hook_data\<rparr>))"

text \<open>
  The test of line 1014: the displacement in the last four bytes of the record, taken
  from the address behind them, leads to \<^verbatim>\<open>target + (size - 5)\<close>.
\<close>

definition trampoline_matches :: "memory \<Rightarrow> addr \<Rightarrow> addr \<Rightarrow> bool" where
  "trampoline_matches m hook_data target =
    (let trampoline = hook_data + 4 + ucast (hd_size m hook_data) - 4;
         num_copy_bytes = ucast (hd_size m hook_data) - 5
     in scast (read32 m trampoline) + (trampoline + 4) = target + num_copy_bytes)"

text \<open>The \<^verbatim>\<open>do ... while\<close> loop of \<^verbatim>\<open>_nmd_unhook_page\<close>.\<close>

partial_function (option) unhook_page_loop ::
  "os \<Rightarrow> world \<Rightarrow> addr \<Rightarrow> addr \<Rightarrow> (bool \<times> world) option" where
  "unhook_page_loop sys w target hook_data =
    (if hd_type (mem w) hook_data = NMD_HOOK_DATA_TYPE_TRAMPOLINE
        \<and> trampoline_matches (mem w) hook_data target
     then Some (restore_target sys w target hook_data (ucast (hd_size (mem w) hook_data) - 5))
     else (let hook_data' = hook_data + 4 + ucast (hd_size (mem w) hook_data)
           in if hook_data' AND 0xfff \<noteq> 0 then unhook_page_loop sys w target hook_data'
              else Some (False, w)))"

definition nmd_unhook_page :: "os \<Rightarrow> world \<Rightarrow> addr \<Rightarrow> addr \<Rightarrow> (bool \<times> world) option" where
  "nmd_unhook_page sys w target hook_page = unhook_page_loop sys w target (hook_page + 8)"

text \<open>The walk of \<^verbatim>\<open>nmd_unhook\<close> over the page list.\<close>

partial_function (option) unhook_walk ::
  "os \<Rightarrow> world \<Rightarrow> addr \<Rightarrow> addr \<Rightarrow> (bool \<times> world) option" where
  "unhook_walk sys w target hook_page =
    (case nmd_unhook_page sys w target hook_page of
       None \<Rightarrow> None
     | Some (r, w') \<Rightarrow>
         if r then Some (True, w')
         else if read64 (mem w') hook_page = 0 then Some (False, w')
         else unhook_walk sys w' target (read64 (mem w') hook_page))"

definition nmd_unhook :: "os \<Rightarrow> world \<Rightarrow> addr \<Rightarrow> (bool \<times> world) option" where
  "nmd_unhook sys w target =
    (if first_hook_page w = 0 then Some (False, w)
     else unhook_walk sys w target (first_hook_page w))"

declare parse_prefixes.simps [code]
declare count_copy_bytes.simps [code]
declare find_free_loop.simps [code]
declare alloc_walk.simps [code]
declare unhook_page_loop.simps [code]
declare unhook_walk.simps [code]

section \<open>Properties of records, pages and jumps\<close>

text \<open>
  The record invariant of a hook page: the records that start behind the \<^verbatim>\<open>next\<close>
  pointer follow one another without a gap, each taking its header and \<^verbatim>\<open>size\<close> bytes,
  and the last one ends exactly at the end of the page. Offsets are counted from the
  page base.
\<close>

function records_tile :: "memory \<Rightarrow> addr \<Rightarrow> nat \<Rightarrow> bool" where
  "records_tile m page off =
    (if off \<ge> 0x1000 then off = 0x1000
     else records_tile m page (off + 4 + unat (hd_size m (page + of_nat off))))"
  by pat_completeness auto

termination records_tile
  by (relation "measure (\<lambda>(m, page, off). 0x1000 - off)") auto

declare records_tile.simps [simp del]

definition page_invariant :: "memory \<Rightarrow> addr \<Rightarrow> bool" where
  "page_invariant m page = records_tile m page 8"

text \<open>
  Where the near jump at \<open>a\<close> leads: the address behind its five bytes plus the
  sign-extended displacement.
\<close>

definition near_jump_dest :: "memory \<Rightarrow> addr \<Rightarrow> addr" where
  "near_jump_dest m a = a + 5 + scast (read32 m (a + 1))"

definition bytes_at :: "memory \<Rightarrow> addr \<Rightarrow> nat \<Rightarrow> byte list" where
  "bytes_at m a n = map (\<lambda>i. m (a + of_nat i)) [0..<n]"

text \<open>
  What an allocation leaves behind: the page list head and the flush log as they were;
  and, for a request of at most 0xF00 bytes that returns a record, the type in the
  header of that record, and memory as it was outside the 4096 bytes that start
  12 bytes below the record.
\<close>

definition alloc_post :: "world \<Rightarrow> 8 word \<Rightarrow> 64 word \<Rightarrow> (addr \<times> world) outcome \<Rightarrow> bool" where
  "alloc_post w type sz r =
    (case r of AccessViolation \<Rightarrow> True
     | Done (p, w1) \<Rightarrow>
         first_hook_page w1 = first_hook_page w \<and> flushes w1 = flushes w
         \<and> (p \<noteq> 0 \<longrightarrow> sz \<le> 0xF00 \<longrightarrow>
              hd_type (mem w1) (p - 4) = ucast type
              \<and> (\<forall>a. 0x1000 \<le> a - (p - 12) \<longrightarrow> mem w1 a = mem w a)))"

text \<open>
  The trampoline and the stub of a call of \<^verbatim>\<open>nmd_hook\<close>: the pointers its two
  allocations return, the second one made in the state the first allocation, the
  writing of the trampoline and the protection change leave.
\<close>

definition hook_trampoline :: "os \<Rightarrow> world \<Rightarrow> addr \<Rightarrow> addr option" where
  "hook_trampoline sys w target =
    (case count_copy_bytes (mem w) target 0 of
       None \<Rightarrow> None
     | Some n \<Rightarrow>
         (case nmd_alloc_trampoline sys w target n of
            Some (Done (trampoline, w1)) \<Rightarrow> Some trampoline
          | _ \<Rightarrow> None))"

definition hook_stub :: "os \<Rightarrow> world \<Rightarrow> addr \<Rightarrow> addr option" where
  "hook_stub sys w target =
    (case count_copy_bytes (mem w) target 0 of
       None \<Rightarrow> None
     | Some n \<Rightarrow>
         (case nmd_alloc_trampoline sys w target n of
            Some (Done (trampoline, w1)) \<Rightarrow>
              (case nmd_alloc_absolute_jump sys
                      (snd (NtProtectVirtualMemory sys
                              (w1\<lparr>mem := write_trampoline (mem w1) target trampoline n\<rparr>)
                              target n PAGE_EXECUTE_READWRITE))
                      target of
                 Some (Done (stub, w4)) \<Rightarrow> Some stub
               | _ \<Rightarrow> None)
          | _ \<Rightarrow> None))"

text \<open>
  The scan of \<^verbatim>\<open>_nmd_find_free_hook_data\<close> for \<open>sz\<close> bytes passes from record \<open>a\<close> to
  record \<open>b\<close>: every record before \<open>b\<close> is in use or too small, and none of them
  starts at a page boundary.
\<close>

inductive scan_reaches :: "memory \<Rightarrow> 64 word \<Rightarrow> addr \<Rightarrow> addr \<Rightarrow> bool" for m sz where
  here: "scan_reaches m sz a a"
| step: "hd_type m a \<noteq> NMD_HOOK_DATA_TYPE_NONE \<or> sz > ucast (hd_size m a) \<Longrightarrow>
         a AND 0xfff \<noteq> 0 \<Longrightarrow>
         scan_reaches m sz (a + 4 + ucast (hd_size m a)) b \<Longrightarrow>
         scan_reaches m sz a b"

code_pred scan_reaches .

text \<open>
  The walk of \<^verbatim>\<open>_nmd_alloc_hook_data_near\<close> for \<open>sz\<close> bytes near \<open>target\<close> passes from page
  \<open>p\<close> to page \<open>q\<close>: every page before \<open>q\<close> is out of reach or has no record for the
  request, and has a successor.
\<close>

inductive walk_reaches :: "memory \<Rightarrow> addr \<Rightarrow> 64 word \<Rightarrow> addr \<Rightarrow> addr \<Rightarrow> bool"
  for m target sz where
  here: "walk_reaches m target sz p p"
| step: "\<not> page_in_range p target \<or> nmd_find_free_hook_data m p sz = Some 0 \<Longrightarrow>
         read64 m p \<noteq> 0 \<Longrightarrow>
         walk_reaches m target sz (read64 m p) q \<Longrightarrow>
         walk_reaches m target sz p q"

code_pred walk_reaches .

section \<open>Example processes\<close>

text \<open>
  A process that has not hooked anything yet, with code \<open>m\<close> mapped read-execute
  (\<^verbatim>\<open>PAGE_EXECUTE_READ\<close> is 0x20), and a system that grants exactly the pages listed and
  answers every protection change alike.
\<close>

definition fresh :: "memory \<Rightarrow> world" where
  "fresh m = \<lparr>mem = m, first_hook_page = 0, protection = (\<lambda>_. 0x20), os_clock = 0, flushes = []\<rparr>"

definition granting :: "addr list \<Rightarrow> bool \<Rightarrow> os" where
  "granting ps ok =
    \<lparr>vm_allocate = (\<lambda>n a. if a \<in> set ps then Some a else None), vm_protect_ok = (\<lambda>_. ok)\<rparr>"

text \<open>A function at 0x10000 that starts with \<^verbatim>\<open>jmp 0x10015\<close> (\<^verbatim>\<open>E9 10 00 00 00\<close>).\<close>

definition code_e9 :: memory where
  "code_e9 = (\<lambda>_. 0)(0x10000 := 0xE9, 0x10001 := 0x10)"

text \<open>
  Two functions, at 0x10000 and at 0x10010, each \<^verbatim>\<open>mov eax, imm32; ret\<close>
  (\<^verbatim>\<open>B8 imm32 C3\<close>).
\<close>

definition mov_ret :: memory where
  "mov_ret = (\<lambda>_. 0)(0x10000 := 0xB8, 0x10001 := 0x01, 0x10005 := 0xC3,
                     0x10010 := 0xB8, 0x10011 := 0x02, 0x10015 := 0xC3)"

text \<open>
  A function at 0x10000 with the prologue \<^verbatim>\<open>push rbp; mov rbp, rsp; sub rsp, 0x20\<close>
  (\<^verbatim>\<open>55 48 89 E5 48 83 EC 20\<close>): the first instruction boundary at or behind the fifth
  byte is at offset 8.
\<close>

definition prologue :: memory where
  "prologue = (\<lambda>_. 0)(0x10000 := 0x55, 0x10001 := 0x48, 0x10002 := 0x89, 0x10003 := 0xE5,
                      0x10004 := 0x48, 0x10005 := 0x83, 0x10006 := 0xEC, 0x10007 := 0x20)"

text \<open>
  A function at 0x80010000 that starts with a near jump far backwards, to 0x10015
  (\<^verbatim>\<open>E9 10 00 00 80\<close>).
\<close>

definition code_e9_far :: memory where
  "code_e9_far = (\<lambda>_. 0)(0x80010000 := 0xE9, 0x80010001 := 0x10, 0x80010004 := 0x80)"

text \<open>The process \<open>fresh mov_ret\<close> after the hook of its first function.\<close>

definition hooked_once :: world where
  "hooked_once =
    (case nmd_hook (granting [0x11000] True) (fresh mov_ret) 0x10000 0x30000 0 of
       Some (Done (ok, out, w)) \<Rightarrow> w
     | _ \<Rightarrow> fresh mov_ret)"

section \<open>Frames of the memory operations\<close>

lemma read16_write16_same [simp]: "read16 (write16 m a v) a = v"
  apply (simp add: read16_def write16_def)
  apply (rule bit_word_eqI)
  apply (auto simp: bit_simps)
  done

lemma read32_write32_same [simp]: "read32 (write32 m a v) a = v"
proof (rule bit_word_eqI)
  fix n assume "n < LENGTH(32)"
  then consider "n < 8" | "8 \<le> n \<and> n < 16" | "16 \<le> n \<and> n < 24" | "24 \<le> n \<and> n < 32"
    by fastforce
  then show "bit (read32 (write32 m a v) a) n = bit v n"
    by cases (auto simp: read32_def write32_def bit_simps)
qed

lemma write32_other: "4 \<le> b - a \<Longrightarrow> write32 m a v b = m b"
  by (auto simp: write32_def word_le_nat_alt)
lemma write64_other: "8 \<le> b - a \<Longrightarrow> write64 m a v b = m b"
  by (auto simp: write64_def write32_def word_le_nat_alt)

lemma read32_frame: "(\<And>i. i < 4 \<Longrightarrow> m' (a + i) = m (a + i)) \<Longrightarrow> read32 m' a = read32 m a"
proof -
  assume h: "\<And>i. i < 4 \<Longrightarrow> m' (a + i) = m (a + i)"
  have "m' a = m a" using h[of 0] by simp 
  moreover have "m' (a + 1) = m (a + 1)" using h[of 1] by (simp add: word_less_nat_alt)
  moreover have "m' (a + 2) = m (a + 2)" using h[of 2] by (simp add: word_less_nat_alt)
  moreover have "m' (a + 3) = m (a + 3)" using h[of 3] by (simp add: word_less_nat_alt)
  ultimately show ?thesis by (simp add: read32_def)
qed

lemma read32_write32_other: "4 \<le> b - a \<Longrightarrow> 4 \<le> a - b \<Longrightarrow> read32 (write32 m a v) b = read32 m b"
  apply (rule read32_frame)
  apply (rule write32_other)
  apply unat_arith
  done

lemma read64_write64_same [simp]: "read64 (write64 m a v) a = v"
proof -
  have lo: "read32 (write64 m a v) a = ucast v"
    unfolding write64_def by (subst read32_write32_other) (simp_all add: word_le_nat_alt)
  have hi: "read32 (write64 m a v) (a + 4) = ucast (drop_bit 32 v)"
    unfolding write64_def by simp
  show ?thesis
  proof (rule bit_word_eqI)
    fix n assume "n < LENGTH(64)"
    then consider "n < 32" | "32 \<le> n \<and> n < 64"
      by fastforce
    then show "bit (read64 (write64 m a v) a) n = bit v n"
      by cases (auto simp: read64_def lo hi bit_simps)
  qed
qed


lemma scast_ucast_fits:
  assumes "- 0x80000000 \<le> sint d" and "sint d \<le> 0x7fffffff"
  shows "scast (ucast d :: 32 word) = (d :: 64 word)"
proof (rule signed_word_eqI)
  have a: "sint (ucast d :: 32 word) = signed_take_bit 31 (uint d)"
    by (simp add: signed_ucast_eq)
  have b: "signed_take_bit 31 (uint d) = signed_take_bit 31 (sint d)"
    by (simp add: sint_uint)
  have c: "signed_take_bit 31 (sint d) = sint d"
    using assms by (simp add: signed_take_bit_int_eq_self_iff)
  have "sint (scast (ucast d :: 32 word) :: 64 word)
      = signed_take_bit 63 (sint (ucast d :: 32 word))"
    by (simp add: signed_scast_eq)
  also have "\<dots> = sint d"
    using a b c assms by (simp add: signed_take_bit_int_eq_self_iff)
  finally show "sint (scast (ucast d :: 32 word) :: 64 word) = sint d" .
qed

lemma copy_loop_result:
  "i \<le> n \<Longrightarrow> (\<forall>k. k < n \<longrightarrow> n \<le> src + k - dst) \<Longrightarrow>
   copy_loop m dst src i n a =
     (if i \<le> a - dst \<and> a - dst < n then m (src + (a - dst)) else m a)"
proof (induction m dst src i n rule: copy_loop.induct)
  case (1 m dst src i n)
  show ?case
  proof (cases "i < n")
    case False
    with "1.prems" have "i = n" by simp
    then show ?thesis by (subst copy_loop.simps) auto
  next
    case True
    define m' where "m' = m(dst + i := m (src + i))"
    have le: "i + 1 \<le> n" using True by unat_arith
    have ih: "copy_loop m' dst src (i + 1) n a =
        (if i + 1 \<le> a - dst \<and> a - dst < n then m' (src + (a - dst)) else m' a)"
      unfolding m'_def by (rule "1.IH" [OF True le "1.prems"(2)])
    have src: "m' (src + k) = m (src + k)" if k: "k < n" for k
    proof -
      from k "1.prems" have "n \<le> src + k - dst" by simp
      with True have "src + k - dst \<noteq> i" by unat_arith
      then have "src + k \<noteq> dst + i" by auto
      then show ?thesis by (simp add: m'_def)
    qed
    have step: "copy_loop m dst src i n a = copy_loop m' dst src (i + 1) n a"
      unfolding m'_def using True by (subst copy_loop.simps) simp
    show ?thesis
    proof (cases "a - dst = i")
      case eq: True
      then have a: "a = dst + i" by (metis add_diff_cancel_left' diff_add_cancel add.commute)
      have "\<not> i + 1 \<le> a - dst" using eq True by unat_arith
      with step ih have "copy_loop m dst src i n a = m' a" by simp
      also have "m' a = m (src + i)" by (simp add: m'_def a)
      finally show ?thesis using eq True by simp
    next
      case ne: False
      then have a: "a \<noteq> dst + i" by auto
      have cond: "(i + 1 \<le> a - dst) = (i \<le> a - dst)" using ne True by unat_arith
      show ?thesis
      proof (cases "i \<le> a - dst \<and> a - dst < n")
        case in_range: True
        then have "m' (src + (a - dst)) = m (src + (a - dst))" by (intro src) simp
        with step ih cond in_range show ?thesis by simp
      next
        case out: False
        have "m' a = m a" using a by (simp add: m'_def)
        with step ih cond out show ?thesis by auto
      qed
    qed
  qed
qed

lemma write16_frame: "b \<noteq> a \<Longrightarrow> b \<noteq> a + 1 \<Longrightarrow> write16 m a v b = m b"
  by (simp add: write16_def)

lemma NtAllocateVirtualMemory_frame:
  assumes "NtAllocateVirtualMemory sys w b = (r, w')"
  shows "first_hook_page w' = first_hook_page w" and "flushes w' = flushes w"
    and "r = None \<Longrightarrow> mem w' = mem w"
    and "r = Some p \<Longrightarrow> 0x1000 \<le> a - p \<Longrightarrow> mem w' a = mem w a"
  using assms by (auto simp: NtAllocateVirtualMemory_def not_less [symmetric] split: option.splits)

lemma alloc_page_probe_frame:
  "alloc_page_probe sys w t addr = (p, w') \<Longrightarrow>
     first_hook_page w' = first_hook_page w \<and> flushes w' = flushes w
     \<and> (\<forall>a. 0x1000 \<le> a - p \<longrightarrow> mem w' a = mem w a)"
proof (induction sys w t addr rule: alloc_page_probe.induct)
  case (1 sys w target_addr addr)
  obtain r w1 where nt: "NtAllocateVirtualMemory sys w target_addr = (r, w1)"
    by (cases "NtAllocateVirtualMemory sys w target_addr")
  note fr = NtAllocateVirtualMemory_frame [OF nt]
  show ?case
  proof (cases r)
    case (Some q)
    with "1.prems" nt have "p = q" "w' = w1" by (simp_all add: alloc_page_probe.simps)
    with fr Some show ?thesis by simp
  next
    case None
    show ?thesis
    proof (cases "target_addr \<ge> 0x8000000000000000 \<or> target_addr \<ge> addr + 0x80000000 - 0x1000")
      case True
      with "1.prems" nt None have "w' = w1" by (simp add: alloc_page_probe.simps)
      with fr None show ?thesis by simp
    next
      case False
      with "1.prems" nt None have rec: "alloc_page_probe sys w1 (target_addr + 0x1000) addr = (p, w')"
        by (simp add: alloc_page_probe.simps)
      from "1.IH" [OF nt [symmetric] _ False rec] None fr show ?thesis by simp
    qed
  qed
qed

lemma unat_bound: "unat (x :: 64 word) < 18446744073709551616"
  using unsigned_less [of x, where ?'a = nat] by simp

lemma hd_type_set_hd_type [simp]: "hd_type (set_hd_type m a v) a = v"
  by (simp add: hd_type_def set_hd_type_def)

lemma hd_size_set_hd_size [simp]: "hd_size (set_hd_size m a v) a = v"
  by (simp add: hd_size_def set_hd_size_def)

lemma hd_size_set_hd_type [simp]: "hd_size (set_hd_type m a v) a = hd_size m a"
  by (simp add: hd_size_def set_hd_type_def read16_def write16_def)

lemma hd_type_set_hd_size [simp]: "hd_type (set_hd_size m a v) a = hd_type m a"
  by (simp add: hd_type_def set_hd_size_def read16_def write16_def)

lemma set_hd_frame:
  assumes "0x1000 \<le> a - base" and "hook_data - base < 0x1000 - 3"
  shows "set_hd_type m hook_data v a = m a" and "set_hd_size m hook_data v a = m a"
proof -
  have "a \<noteq> hook_data" "a \<noteq> hook_data + 1" "a \<noteq> hook_data + 2" "a \<noteq> hook_data + 2 + 1"
    using assms unat_bound [of a] unat_bound [of base] unat_bound [of hook_data]
    by (auto simp add: unat_arith_simps split: if_splits)
  then show "set_hd_type m hook_data v a = m a" and "set_hd_size m hook_data v a = m a"
    by (simp_all add: set_hd_type_def set_hd_size_def write16_frame)
qed

lemma next_header_above:
  assumes "sz \<le> (0xF00 :: 64 word)"
  shows "hd_type (set_hd_size m (hook_data + 4 + sz) v) hook_data = hd_type m hook_data"
    and "hd_size (set_hd_size m (hook_data + 4 + sz) v) hook_data = hd_size m hook_data"
proof -
  have "hook_data + 4 + sz + 2 \<noteq> hook_data" "hook_data + 4 + sz + 2 + 1 \<noteq> hook_data"
     "hook_data + 4 + sz + 2 \<noteq> hook_data + 1" "hook_data + 4 + sz + 2 + 1 \<noteq> hook_data + 1"
     "hook_data + 4 + sz + 2 \<noteq> hook_data + 2" "hook_data + 4 + sz + 2 + 1 \<noteq> hook_data + 2"
     "hook_data + 4 + sz + 2 \<noteq> hook_data + 2 + 1" "hook_data + 4 + sz + 2 + 1 \<noteq> hook_data + 2 + 1"
    using assms unat_bound [of sz] unat_bound [of hook_data]
    by (auto simp add: unat_arith_simps split: if_splits)
  then show "hd_type (set_hd_size m (hook_data + 4 + sz) v) hook_data = hd_type m hook_data"
    and "hd_size (set_hd_size m (hook_data + 4 + sz) v) hook_data = hd_size m hook_data"
    by (simp_all add: hd_type_def hd_size_def set_hd_size_def read16_def write16_def)
qed

lemma init_hook_page_frame:
  assumes "init_hook_page m page type sz = (p, m')" and "sz \<le> 0xF00"
  shows "p = page + 12" and "hd_type m' (p - 4) = ucast type"
    and "0x1000 \<le> a - page \<Longrightarrow> m' a = m a"
proof -
  from assms(1) show p: "p = page + 12" by (auto simp: init_hook_page_def Let_def)
  have nx: "page + 8 + 4 + sz - page < 0x1000 - 3" "page + 8 - page < 0x1000 - 3"
    using assms(2) unat_bound [of sz] unat_bound [of page]
    by (auto simp add: unat_arith_simps split: if_splits)
  from assms(1) have m': "m' = set_hd_size (set_hd_type (set_hd_size m (page + 8) (ucast sz))
      (page + 8) (ucast type)) (page + 8 + 4 + sz) (ucast (0x1000 - (8 + 4 + sz)))"
    by (auto simp: init_hook_page_def Let_def)
  have e: "p - 4 = page + 8" by (simp add: p)
  have "hd_type m' (page + 8) = hd_type (set_hd_type (set_hd_size m (page + 8) (ucast sz))
      (page + 8) (ucast type)) (page + 8)"
    unfolding m' by (rule next_header_above(1) [OF assms(2)])
  then show "hd_type m' (p - 4) = ucast type"
    unfolding e by (simp only: hd_type_set_hd_type)
  show "m' a = m a" if "0x1000 \<le> a - page"
    using that nx by (simp add: m' set_hd_frame [where base = page])
qed

lemma take_hook_data_frame:
  assumes "take_hook_data m hook_data type sz = (p, m')" and "sz \<le> 0xF00"
  shows "p = hook_data + 4" and "hd_type m' (p - 4) = ucast type"
    and "0x1000 \<le> a - (p - 12) \<Longrightarrow> m' a = m a"
proof -
  from assms(1) show p: "p = hook_data + 4"
    by (auto simp: take_hook_data_def Let_def split: if_splits)
  have e: "p - 4 = hook_data" by (simp add: p)
  have nx: "hook_data + 4 + sz - (p - 12) < 0x1000 - 3" "hook_data - (p - 12) < 0x1000 - 3"
    using assms(2) unat_bound [of sz] unat_bound [of hook_data]
    by (auto simp add: p unat_arith_simps split: if_splits)
  from assms(1) show "hd_type m' (p - 4) = ucast type"
    by (auto simp: e take_hook_data_def Let_def split: if_splits)
  show "m' a = m a" if "0x1000 \<le> a - (p - 12)"
    using assms(1) that nx
    by (auto simp: take_hook_data_def Let_def set_hd_frame [where base = "p - 12"] split: if_splits)
qed

lemma alloc_walk_post:
  assumes ret: "alloc_walk sys w hook_page target type sz = Some r"
  shows "alloc_post w type sz r"
proof (rule alloc_walk.raw_induct
    [where P = "\<lambda>sys w hook_page target type sz r. alloc_post w type sz r", OF _ ret])
  fix f sys w hook_page target type sz r
  assume ih: "\<And>sys w hook_page target type sz r.
      f sys w hook_page target type sz = Some r \<Longrightarrow> alloc_post w type sz r"
    and body: "(case (if page_in_range hook_page target
           then nmd_find_free_hook_data (mem w) hook_page sz else Some 0) of
       None \<Rightarrow> None
     | Some hook_data \<Rightarrow>
         if hook_data \<noteq> 0 then
           (case take_hook_data (mem w) hook_data type sz of
              (p, m') \<Rightarrow> Some (Done (p, w\<lparr>mem := m'\<rparr>)))
         else if read64 (mem w) hook_page = 0 then
           (case nmd_alloc_page_near sys w target of
              (page, w') \<Rightarrow>
                if page \<noteq> 0
                then Some (Done (0, w'\<lparr>mem := write64 (mem w') hook_page page\<rparr>))
                else Some AccessViolation)
         else f sys w (read64 (mem w) hook_page) target type sz) = Some r"
  from body obtain hook_data where
    found: "(if page_in_range hook_page target
           then nmd_find_free_hook_data (mem w) hook_page sz else Some 0) = Some hook_data"
    by (auto split: option.splits)
  show "alloc_post w type sz r"
  proof (cases "hook_data \<noteq> 0")
    case True
    obtain p m' where t: "take_hook_data (mem w) hook_data type sz = (p, m')"
      by (cases "take_hook_data (mem w) hook_data type sz")
    with body found True have r: "r = Done (p, w\<lparr>mem := m'\<rparr>)" by simp
    show ?thesis
      using take_hook_data_frame [OF t] by (simp add: r alloc_post_def)
  next
    case False
    show ?thesis
    proof (cases "read64 (mem w) hook_page = 0")
      case True
      obtain page w' where a: "nmd_alloc_page_near sys w target = (page, w')"
        by (cases "nmd_alloc_page_near sys w target")
      from alloc_page_probe_frame [OF a [unfolded nmd_alloc_page_near_def]]
      show ?thesis using body found False True a
        by (auto simp: alloc_post_def split: if_splits)
    next
      case nz: False
      with body found False have "f sys w (read64 (mem w) hook_page) target type sz = Some r"
        by simp
      then show ?thesis by (rule ih)
    qed
  qed
qed

lemma nmd_alloc_hook_data_near_post:
  assumes ret: "nmd_alloc_hook_data_near sys w target type sz = Some (Done (p, w1))"
    and p: "p \<noteq> 0" and sz: "sz \<le> 0xF00"
  shows "first_hook_page w1 \<noteq> 0" and "flushes w1 = flushes w"
    and "hd_type (mem w1) (p - 4) = ucast type"
    and "0x1000 \<le> a - (p - 12) \<Longrightarrow> mem w1 a = mem w a"
proof -
  have "first_hook_page w1 \<noteq> 0 \<and> flushes w1 = flushes w
      \<and> hd_type (mem w1) (p - 4) = ucast type
      \<and> (0x1000 \<le> a - (p - 12) \<longrightarrow> mem w1 a = mem w a)"
  proof (cases "first_hook_page w = 0")
    case False
    with ret have "alloc_walk sys w (first_hook_page w) target type sz = Some (Done (p, w1))"
      by (simp add: nmd_alloc_hook_data_near_def)
    from alloc_walk_post [OF this] False p sz show ?thesis
      by (simp add: alloc_post_def)
  next
    case True
    obtain page w' where a: "nmd_alloc_page_near sys w target = (page, w')"
      by (cases "nmd_alloc_page_near sys w target")
    note fr = alloc_page_probe_frame [OF a [unfolded nmd_alloc_page_near_def]]
    from ret True a p have page: "page \<noteq> 0"
      by (auto simp: nmd_alloc_hook_data_near_def split: if_splits)
    obtain q m' where i: "init_hook_page (mem w') page type sz = (q, m')"
      by (cases "init_hook_page (mem w') page type sz")
    from ret True a page i have r: "p = q" "w1 = w'\<lparr>mem := m', first_hook_page := page\<rparr>"
      by (simp_all add: nmd_alloc_hook_data_near_def)
    note ifr = init_hook_page_frame [OF i sz]
    have "p - 12 = page" using ifr(1) r(1) by simp
    then show ?thesis
      using fr ifr page by (simp add: r)
  qed
  then show "first_hook_page w1 \<noteq> 0" and "flushes w1 = flushes w"
    and "hd_type (mem w1) (p - 4) = ucast type"
    and "0x1000 \<le> a - (p - 12) \<Longrightarrow> mem w1 a = mem w a"
    by simp_all
qed

lemma NtProtectVirtualMemory_frame:
  assumes "NtProtectVirtualMemory sys w base len new = (r, w')"
  shows "mem w' = mem w" and "flushes w' = flushes w" and "first_hook_page w' = first_hook_page w"
  using assms by (auto simp: NtProtectVirtualMemory_def split: if_splits)

lemma hook_finish_frame:
  assumes "hook_finish sys w target n old out = (ok, out', w')"
  shows "ok" and "out' = out" and "mem w' = mem w" and "flushes w' = flushes w @ [(target, 5)]"
proof -
  obtain r w1 where p: "NtProtectVirtualMemory sys w target n old = (r, w1)"
    by (cases "NtProtectVirtualMemory sys w target n old")
  from assms p have "ok" "out' = out" "w' = FlushInstructionCache w1 target 5"
    by (simp_all add: hook_finish_def)
  with NtProtectVirtualMemory_frame [OF p]
  show "ok" and "out' = out" and "mem w' = mem w" and "flushes w' = flushes w @ [(target, 5)]"
    by (simp_all add: FlushInstructionCache_def)
qed

lemma nmd_hook_success:
  assumes hook: "nmd_hook sys w target detour original = Some (Done (True, out, w'))"
  obtains n tramp w1 old w3 where
    "count_copy_bytes (mem w) target 0 = Some n"
    "nmd_alloc_trampoline sys w target n = Some (Done (tramp, w1))"
    "tramp \<noteq> 0"
    "out = (if original \<noteq> 0 then Some tramp else None)"
    "NtProtectVirtualMemory sys (w1\<lparr>mem := write_trampoline (mem w1) target tramp n\<rparr>)
        target n PAGE_EXECUTE_READWRITE = (Some old, w3)"
    "\<not> too_far (detour - (target + 5)) \<Longrightarrow>
       mem w' = write_near_jump (mem w3) target (ucast (detour - (target + 5)))
       \<and> flushes w' = flushes w3 @ [(target, 5)]"
    "too_far (detour - (target + 5)) \<Longrightarrow>
       \<exists>stub w4. nmd_alloc_absolute_jump sys w3 target = Some (Done (stub, w4)) \<and> stub \<noteq> 0
         \<and> mem w' = write_near_jump (write_absolute_jump (mem w4) stub detour) target
                       (ucast (stub - (target + 5)))
         \<and> flushes w' = flushes w4 @ [(target, 5)]"
proof -
  from hook obtain n where n: "count_copy_bytes (mem w) target 0 = Some n"
    by (auto simp: nmd_hook_def Let_def split: option.splits)
  from hook n obtain tramp w1 where
    a: "nmd_alloc_trampoline sys w target n = Some (Done (tramp, w1))"
    by (auto simp: nmd_hook_def Let_def split: option.splits outcome.splits)
  from hook n a have t: "tramp \<noteq> 0"
    by (auto simp: nmd_hook_def Let_def split: if_splits)
  define w2 where "w2 = w1\<lparr>mem := write_trampoline (mem w1) target tramp n\<rparr>"
  obtain r w3 where p: "NtProtectVirtualMemory sys w2 target n PAGE_EXECUTE_READWRITE = (r, w3)"
    by (cases "NtProtectVirtualMemory sys w2 target n PAGE_EXECUTE_READWRITE")
  from hook n a t p obtain old where r: "r = Some old"
    by (cases r) (auto simp: nmd_hook_def Let_def w2_def)
  define o' where "o' = (if original \<noteq> 0 then Some tramp else None)"
  have rest: "(if too_far (detour - (target + 5)) then
         (case nmd_alloc_absolute_jump sys w3 target of
            None \<Rightarrow> None
          | Some AccessViolation \<Rightarrow> Some AccessViolation
          | Some (Done (absolute_jump, w4)) \<Rightarrow>
              if absolute_jump = 0 then Some (Done (False, o', w4))
              else Some (Done (hook_finish sys
                     (w4\<lparr>mem := write_near_jump (write_absolute_jump (mem w4) absolute_jump detour)
                                  target (ucast (absolute_jump - (target + 5)))\<rparr>)
                     target n old o')))
       else Some (Done (hook_finish sys
                     (w3\<lparr>mem := write_near_jump (mem w3) target (ucast (detour - (target + 5)))\<rparr>)
                     target n old o'))) = Some (Done (True, out, w'))"
    using hook unfolding nmd_hook_def Let_def o'_def
    by (simp add: n a t p [unfolded w2_def] r split del: if_split)
  have near: "mem w' = write_near_jump (mem w3) target (ucast (detour - (target + 5)))
       \<and> flushes w' = flushes w3 @ [(target, 5)] \<and> out = o'" if "\<not> too_far (detour - (target + 5))"
    using rest that hook_finish_frame
      [of sys "w3\<lparr>mem := write_near_jump (mem w3) target (ucast (detour - (target + 5)))\<rparr>"
          target n old o' True out w']
    by simp
  have far: "\<exists>stub w4. nmd_alloc_absolute_jump sys w3 target = Some (Done (stub, w4)) \<and> stub \<noteq> 0
         \<and> mem w' = write_near_jump (write_absolute_jump (mem w4) stub detour) target
                       (ucast (stub - (target + 5)))
         \<and> flushes w' = flushes w4 @ [(target, 5)] \<and> out = o'" if f: "too_far (detour - (target + 5))"
  proof -
    from rest f obtain stub w4 where
      s: "nmd_alloc_absolute_jump sys w3 target = Some (Done (stub, w4))"
      by (auto split: option.splits outcome.splits)
    from rest f s have nz: "stub \<noteq> 0" by (auto split: if_splits)
    from rest f s nz have "hook_finish sys
        (w4\<lparr>mem := write_near_jump (write_absolute_jump (mem w4) stub detour)
                     target (ucast (stub - (target + 5)))\<rparr>) target n old o' = (True, out, w')"
      by simp
    from hook_finish_frame [OF this] s nz show ?thesis by simp
  qed
  have "out = o'" using near far by blast
  then show thesis
    using that [OF n a t _ p [unfolded w2_def r]] near far by (simp add: o'_def)
qed

lemma copy_loop_frame: "n \<le> a - dst \<Longrightarrow> copy_loop m dst src i n a = m a"
proof (induction m dst src i n rule: copy_loop.induct)
  case (1 m dst src i n)
  show ?case
  proof (cases "i < n")
    case False
    then show ?thesis by (subst copy_loop.simps) simp
  next
    case True
    with "1.prems" have ne: "a \<noteq> dst + i" by auto
    have "copy_loop m dst src i n a = copy_loop (m(dst + i := m (src + i))) dst src (i + 1) n a"
      using True by (subst copy_loop.simps) simp
    also have "\<dots> = (m(dst + i := m (src + i))) a"
      by (rule "1.IH" [OF True "1.prems"])
    also have "\<dots> = m a" using ne by simp
    finally show ?thesis .
  qed
qed

lemma write_near_jump_opcode [simp]: "write_near_jump m a d a = 0xE9"
  by (simp add: write_near_jump_def write32_def write8_def)

lemma write_near_jump_disp [simp]: "read32 (write_near_jump m a d) (a + 1) = d"
  by (simp add: write_near_jump_def)

lemma write_near_jump_frame: "5 \<le> b - a \<Longrightarrow> write_near_jump m a d b = m b"
proof -
  assume h: "5 \<le> b - a"
  then have "b \<noteq> a" "b \<noteq> a + 1" "b \<noteq> a + 1 + 1" "b \<noteq> a + 1 + 2" "b \<noteq> a + 1 + 3"
    using unat_bound [of a] unat_bound [of b]
    by (auto simp add: unat_arith_simps split: if_splits)
  then show ?thesis by (simp add: write_near_jump_def write32_def write8_def)
qed

lemma write_absolute_jump_frame: "12 \<le> b - a \<Longrightarrow> write_absolute_jump m a d b = m b"
proof -
  assume h: "12 \<le> b - a"
  then have "b \<noteq> a" "b \<noteq> a + 1" "b \<noteq> a + 2" "b \<noteq> a + 2 + 1" "b \<noteq> a + 2 + 2" "b \<noteq> a + 2 + 3"
     "b \<noteq> a + 2 + 4" "b \<noteq> a + 2 + 4 + 1" "b \<noteq> a + 2 + 4 + 2" "b \<noteq> a + 2 + 4 + 3"
     "b \<noteq> a + 10" "b \<noteq> a + 10 + 1"
    using unat_bound [of a] unat_bound [of b]
    by (auto simp add: unat_arith_simps split: if_splits)
  then show ?thesis
    by (simp add: write_absolute_jump_def write64_def write32_def write16_def)
qed

lemma write_trampoline_frame:
  assumes "n + 5 \<le> a - trampoline" and "n \<le> 0xF00"
  shows "write_trampoline m target trampoline n a = m a"
proof -
  have tail: "5 \<le> a - (trampoline + n)" and head: "5 \<le> a - trampoline" and body: "n \<le> a - trampoline"
    using assms unat_bound [of a] unat_bound [of trampoline] unat_bound [of n]
    by (auto simp add: unat_arith_simps split: if_splits)
  have e: "write_trampoline m target trampoline n =
      write_near_jump (if m target = 0xE9 then write_near_jump m trampoline
           (ucast ((scast (read32 m (target + 1)) + (target + 5)) - (trampoline + 5)))
         else copy_loop m trampoline target 0 n) (trampoline + n)
        (ucast ((target + n) - (trampoline + n + 5)))"
    by (simp add: write_trampoline_def write_near_jump_def Let_def)
  show ?thesis
    unfolding e using tail head body
    by (simp add: write_near_jump_frame copy_loop_frame)
qed

lemma read16_frame: "m' a = m a \<Longrightarrow> m' (a + 1) = m (a + 1) \<Longrightarrow> read16 m' a = read16 m a"
  by (simp add: read16_def)

lemma read64_frame:
  assumes "\<And>b. b - a < 8 \<Longrightarrow> m' b = m b"
  shows "read64 m' a = read64 m a"
proof -
  have "a + k - a < 8" if "k < 8" for k :: "64 word" using that by simp
  then have "m' (a + k) = m (a + k)" if "k < 8" for k using assms that by blast
  from this [of 0] this [of 1] this [of 2] this [of 3] this [of 4] this [of "4 + 1"]
    this [of "4 + 2"] this [of "4 + 3"]
  show ?thesis by (simp add: read64_def read32_def word_less_nat_alt add.assoc)
qed

lemma write_absolute_jump_bytes:
  "read16 (write_absolute_jump m a d) a = 0xB848"
  "read64 (write_absolute_jump m a d) (a + 2) = d"
  "read16 (write_absolute_jump m a d) (a + 10) = 0xE0FF"
proof -
  let ?m1 = "write16 m a 0xB848"
  let ?m2 = "write64 ?m1 (a + 2) d"
  have e: "write_absolute_jump m a d = write16 ?m2 (a + 10) 0xE0FF"
    by (simp add: write_absolute_jump_def)
  show "read16 (write_absolute_jump m a d) (a + 10) = 0xE0FF"
    unfolding e by simp
  have "read64 (write16 ?m2 (a + 10) 0xE0FF) (a + 2) = read64 ?m2 (a + 2)"
  proof (rule read64_frame)
    fix b :: "64 word" assume "b - (a + 2) < 8"
    then have "b \<noteq> a + 10" "b \<noteq> a + 10 + 1"
      using unat_bound [of a] unat_bound [of b]
      by (auto simp add: unat_arith_simps split: if_splits)
    then show "write16 ?m2 (a + 10) 0xE0FF b = ?m2 b" by (simp add: write16_frame)
  qed
  then show "read64 (write_absolute_jump m a d) (a + 2) = d"
    unfolding e by simp
  have "read16 (write16 ?m2 (a + 10) 0xE0FF) a = read16 ?m2 a"
    by (rule read16_frame) (simp_all add: write16_frame)
  also have "read16 ?m2 a = read16 ?m1 a"
  proof -
    have "8 \<le> a - (a + 2)" "8 \<le> a + 1 - (a + 2)"
      using unat_bound [of a]
      by (auto simp add: unat_arith_simps unsigned_minus_1_eq_mask mask_eq_exp_minus_1 split: if_splits)
    then show ?thesis by (intro read16_frame write64_other)
  qed
  finally show "read16 (write_absolute_jump m a d) a = 0xB848"
    unfolding e by simp
qed

lemma near_jump_dest_fits:
  assumes "\<not> too_far (x - (a + 5))"
  shows "near_jump_dest (write_near_jump m a (ucast (x - (a + 5)))) a = x"
proof -
  from assms have "scast (ucast (x - (a + 5)) :: 32 word) = x - (a + 5)"
    by (intro scast_ucast_fits) (simp_all add: too_far_def not_less)
  then show ?thesis by (simp add: near_jump_dest_def)
qed

lemma window_excludes:
  assumes "0x1000 \<le> a - (p - 12)" and "k \<le> (0xF00 :: 64 word)"
  shows "k \<le> a - p"
  using assms unat_bound [of a] unat_bound [of p] unat_bound [of k]
  by (auto simp add: unat_arith_simps split: if_splits)

lemma hook_trampoline_eq:
  "count_copy_bytes (mem w) target 0 = Some n \<Longrightarrow>
   nmd_alloc_trampoline sys w target n = Some (Done (tramp, w1)) \<Longrightarrow>
   hook_trampoline sys w target = Some tramp"
  by (simp add: hook_trampoline_def)

lemma hook_stub_eq:
  "count_copy_bytes (mem w) target 0 = Some n \<Longrightarrow>
   nmd_alloc_trampoline sys w target n = Some (Done (tramp, w1)) \<Longrightarrow>
   NtProtectVirtualMemory sys (w1\<lparr>mem := write_trampoline (mem w1) target tramp n\<rparr>)
        target n PAGE_EXECUTE_READWRITE = (r, w3) \<Longrightarrow>
   nmd_alloc_absolute_jump sys w3 target = Some (Done (stub, w4)) \<Longrightarrow>
   hook_stub sys w target = Some stub"
  by (simp add: hook_stub_def)

lemma near_jump_dest_read:
  assumes "read32 m (a + 1) = ucast (x - (a + 5))" and "\<not> too_far (x - (a + 5))"
  shows "near_jump_dest m a = x"
proof -
  from assms(2) have "scast (ucast (x - (a + 5)) :: 32 word) = x - (a + 5)"
    by (intro scast_ucast_fits) (simp_all add: too_far_def not_less)
  with assms(1) show ?thesis by (simp add: near_jump_dest_def)
qed

lemma count_copy_bytes_ge:
  assumes ret: "count_copy_bytes m target k = Some n"
  shows "5 \<le> n"
proof (rule count_copy_bytes.raw_induct [where P = "\<lambda>m target k n. 5 \<le> n", OF _ ret])
  fix f m target k n
  assume ih: "\<And>m target k n. f m target k = Some n \<Longrightarrow> 5 \<le> n"
    and body: "(if k < 5 then
       (case nmd_mem_ldisasm m (target + k) True of
          None \<Rightarrow> None
        | Some l \<Rightarrow> f m target (k + l))
     else Some k) = Some n"
  show "5 \<le> n"
  proof (cases "k < 5")
    case True
    with body obtain l where "f m target (k + l) = Some n"
      by (auto split: option.splits)
    then show ?thesis by (rule ih)
  next
    case False
    with body show ?thesis by (simp add: not_less)
  qed
qed

lemma take_hook_data_writes:
  assumes "take_hook_data m hook_data type sz = (p, m')" and "sz \<le> 0xF00"
    and "sz + 8 \<le> a - (p - 4)"
  shows "m' a = m a"
proof -
  from assms(1) have p: "p = hook_data + 4"
    by (auto simp: take_hook_data_def Let_def split: if_splits)
  have ne: "a \<noteq> hook_data" "a \<noteq> hook_data + 1" "a \<noteq> hook_data + 2" "a \<noteq> hook_data + 2 + 1"
    "a \<noteq> hook_data + 4 + sz + 2" "a \<noteq> hook_data + 4 + sz + 2 + 1"
    using assms(2,3) unat_bound [of a] unat_bound [of hook_data] unat_bound [of sz]
    by (auto simp add: p unat_arith_simps split: if_splits)
  from assms(1) show ?thesis
    using ne
    by (auto simp: take_hook_data_def Let_def set_hd_size_def set_hd_type_def write16_frame
        split: if_splits)
qed

lemma alloc_walk_writes:
  assumes ret: "alloc_walk sys w hook_page target type sz = Some r"
  shows "\<forall>p w1. r = Done (p, w1) \<longrightarrow> p \<noteq> 0 \<longrightarrow> sz \<le> 0xF00 \<longrightarrow>
           (\<forall>a. sz + 8 \<le> a - (p - 4) \<longrightarrow> mem w1 a = mem w a)"
proof (rule alloc_walk.raw_induct
    [where P = "\<lambda>sys w hook_page target type sz r.
        \<forall>p w1. r = Done (p, w1) \<longrightarrow> p \<noteq> 0 \<longrightarrow> sz \<le> 0xF00 \<longrightarrow>
           (\<forall>a. sz + 8 \<le> a - (p - 4) \<longrightarrow> mem w1 a = mem w a)", OF _ ret])
  fix f sys w hook_page target type sz r
  assume ih: "\<And>sys w hook_page target type sz r.
      f sys w hook_page target type sz = Some r \<Longrightarrow>
      \<forall>p w1. r = Done (p, w1) \<longrightarrow> p \<noteq> 0 \<longrightarrow> sz \<le> 0xF00 \<longrightarrow>
           (\<forall>a. sz + 8 \<le> a - (p - 4) \<longrightarrow> mem w1 a = mem w a)"
    and body: "(case (if page_in_range hook_page target
           then nmd_find_free_hook_data (mem w) hook_page sz else Some 0) of
       None \<Rightarrow> None
     | Some hook_data \<Rightarrow>
         if hook_data \<noteq> 0 then
           (case take_hook_data (mem w) hook_data type sz of
              (p, m') \<Rightarrow> Some (Done (p, w\<lparr>mem := m'\<rparr>)))
         else if read64 (mem w) hook_page = 0 then
           (case nmd_alloc_page_near sys w target of
              (page, w') \<Rightarrow>
                if page \<noteq> 0
                then Some (Done (0, w'\<lparr>mem := write64 (mem w') hook_page page\<rparr>))
                else Some AccessViolation)
         else f sys w (read64 (mem w) hook_page) target type sz) = Some r"
  from body obtain hook_data where
    found: "(if page_in_range hook_page target
           then nmd_find_free_hook_data (mem w) hook_page sz else Some 0) = Some hook_data"
    by (auto split: option.splits)
  show "\<forall>p w1. r = Done (p, w1) \<longrightarrow> p \<noteq> 0 \<longrightarrow> sz \<le> 0xF00 \<longrightarrow>
           (\<forall>a. sz + 8 \<le> a - (p - 4) \<longrightarrow> mem w1 a = mem w a)"
  proof (cases "hook_data \<noteq> 0")
    case True
    obtain p m' where t: "take_hook_data (mem w) hook_data type sz = (p, m')"
      by (cases "take_hook_data (mem w) hook_data type sz")
    with body found True have r: "r = Done (p, w\<lparr>mem := m'\<rparr>)" by simp
    show ?thesis
      using take_hook_data_writes [OF t] by (simp add: r)
  next
    case False
    show ?thesis
    proof (cases "read64 (mem w) hook_page = 0")
      case True
      obtain page w' where a: "nmd_alloc_page_near sys w target = (page, w')"
        by (cases "nmd_alloc_page_near sys w target")
      show ?thesis using body found False True a
        by (auto split: if_splits)
    next
      case nz: False
      with body found False have "f sys w (read64 (mem w) hook_page) target type sz = Some r"
        by simp
      then show ?thesis by (rule ih)
    qed
  qed
qed

lemma write_trampoline_tail:
  "write_trampoline m target trampoline n (trampoline + n) = 0xE9"
  "read32 (write_trampoline m target trampoline n) (trampoline + n + 1)
     = ucast ((target + n) - (trampoline + n + 5))"
proof -
  have e: "write_trampoline m target trampoline n =
      write_near_jump (if m target = 0xE9 then write_near_jump m trampoline
           (ucast ((scast (read32 m (target + 1)) + (target + 5)) - (trampoline + 5)))
         else copy_loop m trampoline target 0 n) (trampoline + n)
        (ucast ((target + n) - (trampoline + n + 5)))"
    by (simp add: write_trampoline_def write_near_jump_def Let_def)
  show "write_trampoline m target trampoline n (trampoline + n) = 0xE9"
    unfolding e by (rule write_near_jump_opcode)
  show "read32 (write_trampoline m target trampoline n) (trampoline + n + 1)
     = ucast ((target + n) - (trampoline + n + 5))"
    unfolding e by (rule write_near_jump_disp)
qed

lemma write_trampoline_head:
  assumes n: "5 \<le> n" "n \<le> 0xF00"
  shows "m target = 0xE9 \<Longrightarrow>
           write_trampoline m target trampoline n trampoline = 0xE9
           \<and> read32 (write_trampoline m target trampoline n) (trampoline + 1)
               = ucast (near_jump_dest m target - (trampoline + 5))"
    and "m target \<noteq> 0xE9 \<Longrightarrow> (\<forall>k. k < n \<longrightarrow> n \<le> target + k - trampoline) \<Longrightarrow> i < n \<Longrightarrow>
           write_trampoline m target trampoline n (trampoline + i) = m (target + i)"
proof -
  have e: "write_trampoline m target trampoline n =
      write_near_jump (if m target = 0xE9 then write_near_jump m trampoline
           (ucast ((scast (read32 m (target + 1)) + (target + 5)) - (trampoline + 5)))
         else copy_loop m trampoline target 0 n) (trampoline + n)
        (ucast ((target + n) - (trampoline + n + 5)))"
    by (simp add: write_trampoline_def write_near_jump_def Let_def)
  have below: "5 \<le> trampoline + k - (trampoline + n)" if "k < n" for k
    using that n unat_bound [of k] unat_bound [of n] unat_bound [of trampoline]
    by (auto simp add: unat_arith_simps split: if_splits)
  {
    assume e9: "m target = 0xE9"
    let ?d = "ucast ((scast (read32 m (target + 1)) + (target + 5)) - (trampoline + 5)) :: 32 word"
    let ?m1 = "write_near_jump m trampoline ?d"
    have w: "write_trampoline m target trampoline n = write_near_jump ?m1 (trampoline + n)
        (ucast ((target + n) - (trampoline + n + 5)))"
      unfolding e using e9 by simp
    have k5: "k < n" if "k < 5" for k :: "64 word"
      using that n by (simp add: word_le_nat_alt word_less_nat_alt)
    have keep: "write_trampoline m target trampoline n (trampoline + k) = ?m1 (trampoline + k)"
      if "k < 5" for k
      unfolding w by (rule write_near_jump_frame) (rule below [OF k5 [OF that]])
    have "write_trampoline m target trampoline n trampoline = ?m1 trampoline"
      using keep [of 0] by simp
    moreover have "read32 (write_trampoline m target trampoline n) (trampoline + 1)
        = read32 ?m1 (trampoline + 1)"
    proof (rule read32_frame)
      fix i :: "64 word" assume "i < 4"
      then have "1 + i < 5" by (simp add: word_less_nat_alt unat_word_ariths)
      from keep [OF this] show "write_trampoline m target trampoline n (trampoline + 1 + i)
          = ?m1 (trampoline + 1 + i)" by (simp add: add.assoc)
    qed
    moreover have "?d = ucast (near_jump_dest m target - (trampoline + 5))"
      by (simp add: near_jump_dest_def add.commute)
    ultimately show "write_trampoline m target trampoline n trampoline = 0xE9
           \<and> read32 (write_trampoline m target trampoline n) (trampoline + 1)
               = ucast (near_jump_dest m target - (trampoline + 5))"
      by simp
  }
  {
    assume ne: "m target \<noteq> 0xE9" and apart: "\<forall>k. k < n \<longrightarrow> n \<le> target + k - trampoline"
      and i: "i < n"
    have w: "write_trampoline m target trampoline n =
        write_near_jump (copy_loop m trampoline target 0 n) (trampoline + n)
          (ucast ((target + n) - (trampoline + n + 5)))"
      unfolding e using ne by simp
    have "write_trampoline m target trampoline n (trampoline + i)
        = copy_loop m trampoline target 0 n (trampoline + i)"
      unfolding w by (rule write_near_jump_frame) (rule below [OF i])
    also have "\<dots> = m (target + i)"
      using copy_loop_result [of 0 n target trampoline m "trampoline + i"] apart i by simp
    finally show "write_trampoline m target trampoline n (trampoline + i) = m (target + i)" .
  }
qed

lemma scan_reaches_found:
  "scan_reaches m sz a b \<Longrightarrow> hd_type m b = NMD_HOOK_DATA_TYPE_NONE \<Longrightarrow>
   sz \<le> ucast (hd_size m b) \<Longrightarrow> find_free_loop m a sz = Some b"
proof (induction rule: scan_reaches.induct)
  case (here a)
  then have "\<not> sz > ucast (hd_size m a)" by (simp add: not_less)
  with here show ?case by (subst find_free_loop.simps) simp
next
  case (step a b)
  then show ?case by (subst find_free_loop.simps) auto
qed

lemma ucast16_bound: "unat (ucast (s :: 16 word) :: 64 word) < 65536"
  using unsigned_less [of s, where ?'a = nat] by (simp add: unsigned_ucast_eq take_bit_nat_eq_self)

lemma header_above_disjoint:
  fixes s :: "16 word"
  shows "hd_type (set_hd_type m hook_data v) (hook_data + 4 + ucast s) = hd_type m (hook_data + 4 + ucast s)"
    and "hd_size (set_hd_type m hook_data v) (hook_data + 4 + ucast s) = hd_size m (hook_data + 4 + ucast s)"
proof -
  let ?n = "hook_data + 4 + ucast s"
  have "?n \<noteq> hook_data" "?n \<noteq> hook_data + 1" "?n + 1 \<noteq> hook_data" "?n + 1 \<noteq> hook_data + 1"
    "?n + 2 \<noteq> hook_data" "?n + 2 \<noteq> hook_data + 1" "?n + 2 + 1 \<noteq> hook_data" "?n + 2 + 1 \<noteq> hook_data + 1"
    using ucast16_bound [of s] unat_bound [of hook_data]
    by (auto simp add: unat_arith_simps split: if_splits)
  then show "hd_type (set_hd_type m hook_data v) ?n = hd_type m ?n"
    and "hd_size (set_hd_type m hook_data v) ?n = hd_size m ?n"
    by (simp_all add: hd_type_def hd_size_def set_hd_type_def read16_def write16_def)
qed

lemma free_hook_data_header:
  fixes m hook_data
  defines "nxt \<equiv> hook_data + 4 + ucast (hd_size m hook_data)"
  shows "hd_type (free_hook_data m hook_data) hook_data = NMD_HOOK_DATA_TYPE_NONE"
    and "nxt AND 0xfff \<noteq> 0 \<and> hd_type m nxt = NMD_HOOK_DATA_TYPE_NONE \<Longrightarrow>
           hd_size (free_hook_data m hook_data) hook_data
             = hd_size m hook_data + (4 + hd_size m nxt)"
    and "\<not> (nxt AND 0xfff \<noteq> 0 \<and> hd_type m nxt = NMD_HOOK_DATA_TYPE_NONE) \<Longrightarrow>
           hd_size (free_hook_data m hook_data) hook_data = hd_size m hook_data"
  unfolding nxt_def free_hook_data_def Let_def
  by (auto simp add: header_above_disjoint)

lemma merged_size_ge:
  fixes s s2 :: "16 word"
  assumes "s \<le> 0x1000" and "s2 \<le> 0x1000"
  shows "(ucast s :: 64 word) \<le> ucast (s + (4 + s2))"
proof -
  have e: "unat (s + (4 + s2)) = unat s + 4 + unat s2"
    using assms unsigned_less [of s, where ?'a = nat] unsigned_less [of s2, where ?'a = nat]
    by (auto simp add: unat_arith_simps split: if_splits)
  have b: "unat s + 4 + unat s2 < 2 ^ 64" "unat s < 2 ^ 64"
    using unsigned_less [of s, where ?'a = nat] unsigned_less [of s2, where ?'a = nat]
    by simp_all
  show ?thesis
    using b by (simp add: word_le_nat_alt unsigned_ucast_eq take_bit_nat_eq_self e)
qed

lemma walk_reaches_found:
  assumes "walk_reaches (mem w) target sz p q"
    and "page_in_range q target"
    and "nmd_find_free_hook_data (mem w) q sz = Some hook_data" and "hook_data \<noteq> 0"
  shows "alloc_walk sys w p target type sz =
           (case take_hook_data (mem w) hook_data type sz of
              (r, m') \<Rightarrow> Some (Done (r, w\<lparr>mem := m'\<rparr>)))"
  using assms
proof (induction rule: walk_reaches.induct)
  case (here p)
  then show ?case by (subst alloc_walk.simps) simp
next
  case (step p q)
  from step.hyps(1,2) have "alloc_walk sys w p target type sz
      = alloc_walk sys w (read64 (mem w) p) target type sz"
    by (subst alloc_walk.simps) auto
  with step.IH [OF step.prems] show ?case by simp
qed

section \<open>Round trip\<close>

text \<open>
  C1. Claim: for every installable target, hook and then unhook restores the original
  bytes at the target exactly, and a second unhook fails. Evaluated at the function
  \<open>code_e9\<close>, whose first instruction is a near jump: hook and unhook both return true,
  and the five bytes at the target are then \<^verbatim>\<open>E9 04 F0 FF FF\<close>, the jump as it was re-emitted
  for the trampoline at 0x1100C, not the \<^verbatim>\<open>E9 10 00 00 00\<close> that stood there before.
\<close>

theorem unhook_restores_relocated_jump:
  "(case nmd_hook (granting [0x11000] True) (fresh code_e9) 0x10000 0x30000 0 of
      Some (Done (hooked, out, w1)) \<Rightarrow>
        hooked \<and>
        (case nmd_unhook (granting [0x11000] True) w1 0x10000 of
           Some (unhooked, w2) \<Rightarrow>
             unhooked \<and> bytes_at (mem w2) 0x10000 5 = [0xE9, 0x04, 0xF0, 0xFF, 0xFF]
         | None \<Rightarrow> False)
    | _ \<Rightarrow> False)
   \<and> bytes_at (mem (fresh code_e9)) 0x10000 5 = [0xE9, 0x10, 0, 0, 0]"
  by code_simp

section \<open>Failure paths of hook\<close>

text \<open>
  C2. Claim: if hook fails at an allocation or protection step, it returns false with
  the target unmodified, the protection restored on every exit path, and any partially
  built trampoline record freed. Evaluated in a fresh process whose system refuses the
  protection change: hook returns false, and the record it took for the trampoline is
  still in the page as a \<^verbatim>\<open>TRAMPOLINE\<close> record of size 10. (Line 970 returns without
  touching the record; line 978 returns the same way, and there before the protection
  is restored at line 999.)
\<close>

theorem hook_failure_keeps_trampoline_record:
  "(case nmd_hook (granting [0x11000] False) (fresh mov_ret) 0x10000 0x30000 0 of
      Some (Done (hooked, out, w1)) \<Rightarrow>
        \<not> hooked \<and> first_hook_page w1 = 0x11000
        \<and> hd_type (mem w1) 0x11008 = NMD_HOOK_DATA_TYPE_TRAMPOLINE
        \<and> hd_size (mem w1) 0x11008 = 10
    | _ \<Rightarrow> False)"
  by code_simp

section \<open>The record invariant\<close>

text \<open>
  C3. Claim: after any sequence of hook and unhook calls every hook page satisfies the
  record invariant, its last record ending exactly at the end of the page. Evaluated
  after the first hook of a fresh process: the page at 0x11000 holds the trampoline
  record at offset 8 with size 10 and behind it, at offset 22, a record of size 4074,
  which ends at offset 4100. (Lines 859 and 901 give the second record
  \<^verbatim>\<open>0x1000 - (8 + 4 + size)\<close> bytes and leave its own header out of the count; line
  881 subtracts the header.)
\<close>

theorem first_hook_breaks_page_invariant:
  "(case nmd_hook (granting [0x11000] True) (fresh mov_ret) 0x10000 0x30000 0 of
      Some (Done (hooked, out, w1)) \<Rightarrow>
        hooked \<and> first_hook_page w1 = 0x11000
        \<and> hd_size (mem w1) 0x11008 = 10 \<and> hd_size (mem w1) 0x11016 = 4074
        \<and> \<not> page_invariant (mem w1) 0x11000
    | _ \<Rightarrow> False)"
  by code_simp

section \<open>A second hook page\<close>

lemma alloc_walk_refused:
  assumes "\<not> page_in_range hook_page target" and "read64 (mem w) hook_page = 0"
    and "fst (nmd_alloc_page_near sys w target) = 0"
  shows "alloc_walk sys w hook_page target type sz = Some AccessViolation"
  using assms by (subst alloc_walk.simps) (auto split: prod.splits)

text \<open>
  C4. Claim: when no page in reach has room, the allocator obtains a new page, formats
  it and returns a record from it; it returns null only when no page can be obtained.
  Evaluated with one hook page at 0x11000 and a request for a target at 0x200000000,
  out of reach of that page, on a system that grants the page at 0x200001000: the new
  page is linked behind the first one and the allocator returns null. (Line 894 tests
  \<^verbatim>\<open>if ((hook_page->next = ...))\<close> where line 851 tests \<^verbatim>\<open>if (!(... = ...))\<close>; when
  no page is granted, the walk goes on to the stores through the null pointer, as
  \<open>alloc_walk_refused\<close> shows.)
\<close>

theorem second_page_granted_returns_null:
  "(case nmd_alloc_hook_data_near (granting [0x11000, 0x200001000] True) (fresh mov_ret)
           0x10000 1 10 of
      Some (Done (p1, w1)) \<Rightarrow>
        p1 = 0x1100C \<and> \<not> page_in_range 0x11000 0x200000000 \<and>
        (case nmd_alloc_hook_data_near (granting [0x11000, 0x200001000] True) w1
                0x200000000 1 10 of
           Some (Done (p2, w2)) \<Rightarrow> p2 = 0 \<and> read64 (mem w2) 0x11000 = 0x200001000
         | _ \<Rightarrow> False)
    | _ \<Rightarrow> False)"
  by code_simp

section \<open>Termination of the decoder\<close>

text \<open>
  Without the 64-bit mode the prefix loop makes at most 14 rounds, and the decoder
  returns a length between 1 and 29.
\<close>

lemma parse_prefixes_legacy_returns:
  "\<exists>b' fl. parse_prefixes m False b i flags = Some (b', fl) \<and> unat (b' - b) + i \<le> max i 14"
proof (induction "14 - i" arbitrary: b i flags)
  case 0
  then have "\<not> i < 14" by simp
  then have "parse_prefixes m False b i flags = Some (b, flags)"
    by (subst parse_prefixes.simps) simp
  then show ?case by (cases flags) auto
next
  case (Suc k)
  then have i: "i < 14" by simp
  show ?case
  proof (cases "nmd_mem_find_byte prefixes (m b)")
    case False
    then have "parse_prefixes m False b i flags = Some (b, flags)"
      by (subst parse_prefixes.simps) simp
    then show ?thesis by (cases flags) auto
  next
    case True
    define fl where "fl = (case flags of (operandPrefix, addressPrefix, rexW) \<Rightarrow>
               if m b = 0x66 then (True, addressPrefix, rexW)
               else if m b = 0x67 then (operandPrefix, True, rexW)
               else if NMD_MEM_R (m b) = 4 \<and> NMD_MEM_C (m b) \<ge> 8
                 then (operandPrefix, addressPrefix, True)
               else flags)"
    have step: "parse_prefixes m False b i flags = parse_prefixes m False (b + 1) (i + 1) fl"
      using True i by (subst parse_prefixes.simps) (simp add: fl_def)
    from Suc.hyps(2) have "k = 14 - (i + 1)" by simp
    from Suc.hyps(1) [OF this, of "b + 1" fl] obtain b' fl' where
      r: "parse_prefixes m False (b + 1) (i + 1) fl = Some (b', fl')"
      and d: "unat (b' - (b + 1)) + (i + 1) \<le> max (i + 1) 14"
      by blast
    have "unat (b' - b) \<le> unat (b' - (b + 1)) + 1"
      using unat_bound [of b'] unat_bound [of b]
      by (auto simp add: unat_arith_simps split: if_splits)
    with d i have "unat (b' - b) + i \<le> max i 14" by simp
    with step r show ?thesis by (cases fl') auto
  qed
qed

lemma nmd_mem_ldisasm_legacy_returns: "\<exists>n. nmd_mem_ldisasm m address False = Some n"
  using parse_prefixes_legacy_returns [of m address 0 "(False, False, False)"]
  by (auto simp: nmd_mem_ldisasm_def)

lemma parse_modrm_advance:
  "nmd_mem_parse_modrm m b ap - b \<in> {1, 2, 3, 4, 5, 6}"
  by (simp add: nmd_mem_parse_modrm_def Let_def)

lemma ldisasm_opcode_form:
  "\<exists>d off. ldisasm_opcode m address b fl = (b - address) + d + off
      \<and> d \<in> {1, 2, 3, 4, 5, 6, 7} \<and> off \<in> {0, 1, 2, 3, 4, 6, 8}"
proof -
  obtain operandPrefix addressPrefix rexW where fl: "fl = (operandPrefix, addressPrefix, rexW)"
    by (cases fl)
  define b' where "b' = nmd_mem_parse_modrm m b addressPrefix"
  have pm: "b' - b \<in> {1, 2, 3, 4, 5, 6}" unfolding b'_def by (rule parse_modrm_advance)
  have e1: "b + 1 + off - address = (b - address) + 1 + off" for off by simp
  have e2: "b' + 1 + off - address = (b - address) + ((b' - b) + 1) + off" for off by simp
  have d2: "(b' - b) + 1 \<in> {1, 2, 3, 4, 5, 6, 7}" using pm by auto
  have form: "\<exists>d off'. bb + 1 + off - address = (b - address) + d + off'
      \<and> d \<in> {1, 2, 3, 4, 5, 6, 7} \<and> off' \<in> {0, 1, 2, 3, 4, 6, 8}"
    if "bb = b \<or> bb = b'" and "off \<in> {0, 1, 2, 3, 4, 6, 8}" for bb off
  proof -
    from that(1) show ?thesis
    proof
      assume "bb = b"
      then have "bb + 1 + off - address = (b - address) + 1 + off" by simp
      with that(2) show ?thesis by blast
    next
      assume "bb = b'"
      then have "bb + 1 + off - address = (b - address) + ((b' - b) + 1) + off" by simp
      with that(2) d2 show ?thesis by blast
    qed
  qed
  show ?thesis
  proof (cases "m b = 0x0F")
    case True
    show ?thesis
      unfolding ldisasm_opcode_def fl Let_def prod.case b'_def [symmetric] if_P [OF True]
      by (rule form) auto
  next
    case False
    show ?thesis
      unfolding ldisasm_opcode_def fl Let_def prod.case b'_def [symmetric] if_not_P [OF False]
      by (rule form) auto
  qed
qed

lemma nmd_mem_ldisasm_legacy_positive:
  "\<exists>n. nmd_mem_ldisasm m address False = Some n \<and> 1 \<le> n \<and> n \<le> 29"
proof -
  from parse_prefixes_legacy_returns [of m address 0 "(False, False, False)"]
  obtain b fl where p: "parse_prefixes m False address 0 (False, False, False) = Some (b, fl)"
    and k: "unat (b - address) \<le> 14" by auto
  from ldisasm_opcode_form [of m address b fl] obtain d off where
    r: "ldisasm_opcode m address b fl = (b - address) + d + off"
    and d: "d \<in> {1, 2, 3, 4, 5, 6, 7}" and off: "off \<in> {0, 1, 2, 3, 4, 6, 8}" by blast
  from d have d': "1 \<le> d" "d \<le> 7" by auto
  from off have off': "off \<le> 8" by auto
  define x where "x = b - address"
  have "1 \<le> x + d + off \<and> x + d + off \<le> 29"
    using k [folded x_def] d' off' unat_bound [of x] unat_bound [of d] unat_bound [of off]
    by (auto simp add: unat_arith_simps split: if_splits)
  then have "1 \<le> (b - address) + d + off \<and> (b - address) + d + off \<le> 29"
    by (simp add: x_def)
  with p r show ?thesis by (simp add: nmd_mem_ldisasm_def)
qed

text \<open>In 64-bit mode the loop does not stop inside a run of REX bytes.\<close>

lemma parse_prefixes_rex_run:
  assumes ret: "parse_prefixes m x86_64_mode b i flags = Some y"
  shows "(\<forall>a. NMD_MEM_R (m a) = 4) \<longrightarrow> x86_64_mode \<longrightarrow> False"
proof (rule parse_prefixes.raw_induct
    [where P = "\<lambda>m x b i flags y. (\<forall>a. NMD_MEM_R (m a) = 4) \<longrightarrow> x \<longrightarrow> False", OF _ ret])
  fix f m x b i flags y
  assume ih: "\<And>m x b i flags y. f m x b i flags = Some y \<Longrightarrow>
      (\<forall>a. NMD_MEM_R (m a) = 4) \<longrightarrow> x \<longrightarrow> False"
    and body: "(if (i < 14 \<and> nmd_mem_find_byte prefixes (m b))
        \<or> (if x then NMD_MEM_R (m b) = 4 else False)
     then f m x (b + 1) (i + 1)
            (case flags of (operandPrefix, addressPrefix, rexW) \<Rightarrow>
               if m b = 0x66 then (True, addressPrefix, rexW)
               else if m b = 0x67 then (operandPrefix, True, rexW)
               else if NMD_MEM_R (m b) = 4 \<and> NMD_MEM_C (m b) \<ge> 8
                 then (operandPrefix, addressPrefix, True)
               else flags)
     else Some (b, flags)) = Some y"
  show "(\<forall>a. NMD_MEM_R (m a) = 4) \<longrightarrow> x \<longrightarrow> False"
  proof (intro impI)
    assume rex: "\<forall>a. NMD_MEM_R (m a) = 4" and x
    with body obtain fl where "f m x (b + 1) (i + 1) fl = Some y" by simp
    from ih [OF this] rex \<open>x\<close> show False by blast
  qed
qed

text \<open>
  C7. Claim: for every input and both modes the decoder terminates and returns at least
  1. Evaluated in 64-bit mode on memory that holds the REX byte 0x40 everywhere: the
  prefix loop never leaves the run, and the decoder does not return. (The bound
  \<^verbatim>\<open>i < 14\<close> of the loop condition guards only the legacy prefixes: \<^verbatim>\<open>&&\<close> binds tighter
  than \<^verbatim>\<open>||\<close>.)
\<close>

theorem ldisasm_rex_run_diverges:
  "nmd_mem_ldisasm (\<lambda>_. 0x40) address True = None"
proof (cases "parse_prefixes (\<lambda>_. 0x40) True address 0 (False, False, False)")
  case None
  then show ?thesis by (simp add: nmd_mem_ldisasm_def)
next
  case (Some y)
  from parse_prefixes_rex_run [OF this] have False by (simp add: NMD_MEM_R_def)
  then show ?thesis ..
qed

section \<open>The store through original\<close>

text \<open>
  C9. When \<^verbatim>\<open>original\<close> is not null, the trampoline address is stored through it before
  the protection change is tried: a hook that has its trampoline and then fails, at the
  protection change or at the allocation of the stub, has made the store all the same.
\<close>

theorem original_set_before_protection_change:
  assumes "original \<noteq> 0"
    and "hook_trampoline sys w target = Some trampoline"
    and "trampoline \<noteq> 0"
    and "nmd_hook sys w target detour original = Some (Done (False, out, w'))"
  shows "out = Some trampoline"
  using assms unfolding nmd_hook_def hook_trampoline_def Let_def
  by (auto simp: hook_finish_def split: prod.splits option.splits outcome.splits if_splits)

theorem original_set_before_protection_change_witness:
  "\<exists>w'. nmd_hook (granting [0x11000] False) (fresh mov_ret) 0x10000 0x30000 0x5000
          = Some (Done (False, Some 0x1100C, w'))"
proof -
  have t: "hook_trampoline (granting [0x11000] False) (fresh mov_ret) 0x10000 = Some 0x1100C"
    by code_simp
  have "(case nmd_hook (granting [0x11000] False) (fresh mov_ret) 0x10000 0x30000 0x5000 of
           Some (Done (ok, out, w')) \<Rightarrow> \<not> ok | _ \<Rightarrow> False)"
    by code_simp
  then obtain out w' where
    h: "nmd_hook (granting [0x11000] False) (fresh mov_ret) 0x10000 0x30000 0x5000
          = Some (Done (False, out, w'))"
    by (auto split: option.splits outcome.splits)
  have "out = Some 0x1100C"
    by (rule original_set_before_protection_change [OF _ t _ h]) simp_all
  with h show ?thesis by blast
qed

section \<open>The patch at the target\<close>



section \<open>What a hook writes\<close>



section \<open>The contents of the trampoline\<close>




section \<open>Reuse and merging of records\<close>

text \<open>
  C8, as stated: freeing a record and then requesting an equal or smaller size returns
  the same memory; a freed record and the free record behind it merge into one of the
  summed size. Evaluated with two trampoline records of size 10, at 0x1100C and at
  0x1101A, and the free record of size 4056 behind them: both records are freed, the
  second one last, and a request for 10 bytes then returns 0x1100C, the first fit, not
  the memory of the record freed last; and the second record, merged with the free
  record behind it, has the size 4070, four more than the two sizes together.
\<close>

theorem freed_record_is_not_first_fit:
  "(case nmd_alloc_trampoline (granting [0x11000] True) (fresh mov_ret) 0x10000 5 of
      Some (Done (p1, w1)) \<Rightarrow>
        (case nmd_alloc_trampoline (granting [0x11000] True) w1 0x10010 5 of
           Some (Done (p2, w2)) \<Rightarrow>
             p1 = 0x1100C \<and> p2 = 0x1101A
             \<and> hd_size (mem w2) (p2 - 4) = 10
             \<and> hd_type (mem w2) (p2 + 10) = NMD_HOOK_DATA_TYPE_NONE
             \<and> hd_size (mem w2) (p2 + 10) = 4056
             \<and> hd_size (free_hook_data (free_hook_data (mem w2) (p1 - 4)) (p2 - 4)) (p2 - 4) = 4070
             \<and> (case nmd_alloc_trampoline (granting [0x11000] True)
                        (w2\<lparr>mem := free_hook_data (free_hook_data (mem w2) (p1 - 4)) (p2 - 4)\<rparr>)
                        0x10010 5 of
                   Some (Done (p3, w3)) \<Rightarrow> p3 = 0x1100C
                 | _ \<Rightarrow> False)
         | _ \<Rightarrow> False)
    | _ \<Rightarrow> False)"
  by code_simp

text \<open>
  C8, amended. Free a record of a page in reach of the target. A request for at most
  the size the record had returns the memory of that record, with no call of the system
  and the page list as it was, provided the record is the first fit: the walk over the
  page list meets no earlier page in reach with a record for the request, and the scan
  of the page meets no earlier record that is free and large enough. If the record behind
  the freed one starts within the same page and is free, the two merge into one free
  record whose size is the two sizes and the four bytes of the second header together;
  if the record behind it would start at a page boundary, the size stays as it was.
  (Sizes are those of records of a 4096-byte page: at most 0x1000.)
\<close>

theorem freed_record_is_reused:
  assumes page: "first_hook_page w \<noteq> 0" "page_in_range page target"
    and walk: "walk_reaches (free_hook_data (mem w) hook_data) target sz (first_hook_page w) page"
    and rec: "hook_data \<noteq> 0"
    and sizes: "hd_size (mem w) hook_data \<le> 0x1000"
      "hd_size (mem w) (hook_data + 4 + ucast (hd_size (mem w) hook_data)) \<le> 0x1000"
    and fits: "sz \<le> ucast (hd_size (mem w) hook_data)"
    and first_fit: "scan_reaches (free_hook_data (mem w) hook_data) sz (page + 8) hook_data"
  shows "(\<exists>w'. nmd_alloc_hook_data_near sys (w\<lparr>mem := free_hook_data (mem w) hook_data\<rparr>)
                  target type sz = Some (Done (hook_data + 4, w'))
            \<and> first_hook_page w' = first_hook_page w \<and> os_clock w' = os_clock w)
       \<and> hd_type (free_hook_data (mem w) hook_data) hook_data = NMD_HOOK_DATA_TYPE_NONE
       \<and> (hook_data + 4 + ucast (hd_size (mem w) hook_data) AND 0xfff \<noteq> 0
            \<and> hd_type (mem w) (hook_data + 4 + ucast (hd_size (mem w) hook_data))
                = NMD_HOOK_DATA_TYPE_NONE \<longrightarrow>
          hd_size (free_hook_data (mem w) hook_data) hook_data
            = hd_size (mem w) hook_data
              + (4 + hd_size (mem w) (hook_data + 4 + ucast (hd_size (mem w) hook_data))))
       \<and> (hook_data + 4 + ucast (hd_size (mem w) hook_data) AND 0xfff = 0 \<longrightarrow>
          hd_size (free_hook_data (mem w) hook_data) hook_data = hd_size (mem w) hook_data)"
proof -
  define m' where "m' = free_hook_data (mem w) hook_data"
  define nxt where "nxt = hook_data + 4 + ucast (hd_size (mem w) hook_data)"
  note hdr = free_hook_data_header [where m = "mem w" and hook_data = hook_data,
      folded m'_def nxt_def]
  have big: "sz \<le> ucast (hd_size m' hook_data)"
  proof (cases "nxt AND 0xfff \<noteq> 0 \<and> hd_type (mem w) nxt = NMD_HOOK_DATA_TYPE_NONE")
    case True
    from hdr(2) [OF True] merged_size_ge [OF sizes [folded nxt_def]] fits
    show ?thesis by simp
  next
    case False
    from hdr(3) [OF False] fits show ?thesis by simp
  qed
  from first_fit hdr(1) big have found: "find_free_loop m' (page + 8) sz = Some hook_data"
    unfolding m'_def [symmetric] by (rule scan_reaches_found)
  obtain p m'' where t: "take_hook_data m' hook_data type sz = (p, m'')"
    by (cases "take_hook_data m' hook_data type sz")
  then have p: "p = hook_data + 4"
    by (auto simp: take_hook_data_def Let_def split: if_splits)
  have "nmd_alloc_hook_data_near sys (w\<lparr>mem := m'\<rparr>) target type sz
      = alloc_walk sys (w\<lparr>mem := m'\<rparr>) (first_hook_page w) target type sz"
    using page(1) by (simp add: nmd_alloc_hook_data_near_def)
  also have "\<dots> = Some (Done (hook_data + 4, w\<lparr>mem := m''\<rparr>))"
    using walk_reaches_found [where w = "w\<lparr>mem := m'\<rparr>" and sys = sys and type = type,
        OF _ page(2) _ rec] walk found t p
    by (simp add: nmd_find_free_hook_data_def m'_def)
  finally have alloc: "\<exists>w'. nmd_alloc_hook_data_near sys (w\<lparr>mem := m'\<rparr>) target type sz
        = Some (Done (hook_data + 4, w'))
      \<and> first_hook_page w' = first_hook_page w \<and> os_clock w' = os_clock w"
    by simp
  have merge: "nxt AND 0xfff \<noteq> 0 \<and> hd_type (mem w) nxt = NMD_HOOK_DATA_TYPE_NONE \<longrightarrow>
      hd_size m' hook_data = hd_size (mem w) hook_data + (4 + hd_size (mem w) nxt)"
    using hdr(2) by blast
  have stay: "nxt AND 0xfff = 0 \<longrightarrow> hd_size m' hook_data = hd_size (mem w) hook_data"
    using hdr(3) by blast
  from alloc hdr(1) merge stay show ?thesis
    unfolding m'_def nxt_def by blast
qed

theorem freed_record_is_reused_witness:
  "(\<exists>w'. nmd_alloc_hook_data_near (granting [0x11000] True)
            (hooked_once\<lparr>mem := free_hook_data (mem hooked_once) 0x11008\<rparr>) 0x10000 1 10
          = Some (Done (0x1100C, w'))
        \<and> first_hook_page w' = 0x11000)
   \<and> hd_type (free_hook_data (mem hooked_once) 0x11008) 0x11008 = NMD_HOOK_DATA_TYPE_NONE
   \<and> hd_size (free_hook_data (mem hooked_once) 0x11008) 0x11008 = 4088"
proof -
  have f: "first_hook_page hooked_once = 0x11000" by code_simp
  have s1: "hd_size (mem hooked_once) 0x11008 = 10" by code_simp
  have s2: "hd_size (mem hooked_once) 0x11016 = 4074" by code_simp
  have t2: "hd_type (mem hooked_once) 0x11016 = NMD_HOOK_DATA_TYPE_NONE" by code_simp
  have nx: "(0x11008 :: 64 word) + 4 + ucast (10 :: 16 word) = 0x11016" by simp
  have a: "first_hook_page hooked_once \<noteq> 0" by (simp add: f)
  have b: "page_in_range 0x11000 0x10000"
    by (simp add: page_in_range_def)
  have wk: "walk_reaches (free_hook_data (mem hooked_once) 0x11008) 0x10000 10
      (first_hook_page hooked_once) 0x11000"
    by (simp add: f walk_reaches.here)
  have c: "(0x11008 :: 64 word) \<noteq> 0" by simp
  have d: "hd_size (mem hooked_once) 0x11008 \<le> 0x1000" by (simp add: s1)
  have e: "hd_size (mem hooked_once) (0x11008 + 4 + ucast (hd_size (mem hooked_once) 0x11008))
      \<le> 0x1000" by (simp add: s1 nx s2)
  have g: "(10 :: 64 word) \<le> ucast (hd_size (mem hooked_once) 0x11008)" by (simp add: s1)
  have h: "scan_reaches (free_hook_data (mem hooked_once) 0x11008) 10 (0x11000 + 8) 0x11008"
    by (simp add: scan_reaches.here)
  have al: "(0x11016 :: 64 word) AND 0xfff \<noteq> 0" by simp
  from freed_record_is_reused [OF a b wk c d e g h, of "granting [0x11000] True" 1]
  have "(\<exists>w'. nmd_alloc_hook_data_near (granting [0x11000] True)
            (hooked_once\<lparr>mem := free_hook_data (mem hooked_once) 0x11008\<rparr>) 0x10000 1 10
          = Some (Done (0x1100C, w'))
        \<and> first_hook_page w' = 0x11000 \<and> os_clock w' = os_clock hooked_once)
   \<and> hd_type (free_hook_data (mem hooked_once) 0x11008) 0x11008 = NMD_HOOK_DATA_TYPE_NONE
   \<and> hd_size (free_hook_data (mem hooked_once) 0x11008) 0x11008 = 4088"
    by (simp add: f s1 nx s2 t2 al)
  then show ?thesis by blast
qed

end
